theory Spec2Isabelle
  imports Complex_Main "HOL-Library.AList"
begin

section \<open>The DenseNet notebook: architecture, training loop, visualisation\<close>

text \<open>
  The notebook builds its network out of \<^verbatim>\<open>torch.nn\<close> modules. The theory follows the
  notebook's own classes and functions. What a tensor holds is floating point and is not
  modelled; a tensor is represented by its size (\<^verbatim>\<open>torch.Size\<close>, a list of Python
  integers), and where a claim speaks about the contents, by nested lists over an
  arbitrary element type. The size rules of the library modules the notebook calls
  (\<^verbatim>\<open>Conv2d\<close>, \<^verbatim>\<open>BatchNorm2d\<close>, \<^verbatim>\<open>MaxPool2d\<close>, \<^verbatim>\<open>AvgPool2d\<close>, \<^verbatim>\<open>Linear\<close>,
  \<^verbatim>\<open>torch.cat\<close>, \<^verbatim>\<open>view\<close>, \<^verbatim>\<open>F.dropout\<close>) are written out as the library
  documents them; they are library behaviour, not notebook code.
\<close>

subsection \<open>Errors and sizes\<close>

datatype error = RuntimeError | ValueError | IndexError | KeyError | ZeroDivisionError

type_synonym size_t = "int list"

subsection \<open>The library modules the notebook instantiates\<close>

text \<open>
  \<^verbatim>\<open>Conv2d in out kernel_size stride padding\<close>, \<^verbatim>\<open>BatchNorm2d num_features\<close>,
  \<^verbatim>\<open>ReLU\<close>, \<^verbatim>\<open>MaxPool2d kernel_size stride padding\<close>, \<^verbatim>\<open>AvgPool2d kernel_size stride\<close>.
\<close>

datatype layer =
    Conv2d int int int int int
  | BatchNorm2d int
  | ReLU
  | MaxPool2d int int int
  | AvgPool2d int int

datatype Linear = Linear (in_features: int) (out_features: int)

text \<open>Output extent of a sliding window (floor mode): \<open>(size + 2 * padding - kernel) // stride + 1\<close>.\<close>

definition window_out :: "int \<Rightarrow> int \<Rightarrow> int \<Rightarrow> int \<Rightarrow> int" where
  "window_out n k s p = (n + 2 * p - k) div s + 1"

text \<open>
  The size a module returns for an input of a given size, or the error it raises: a
  convolution wants its configured number of input channels and a window that fits;
  batch normalisation wants its configured number of channels and, in training mode, more
  than one value per channel; a pooling wants a window that fits.

  A module configured with a channel or feature count that is not positive does not come
  into being: the library raises when it allocates the module's parameter tensors. The
  constructors below are total, so the error is placed where such a module is applied:
  it never returns a tensor.
\<close>

fun layer_forward :: "bool \<Rightarrow> layer \<Rightarrow> size_t \<Rightarrow> error + size_t" where
  "layer_forward training (Conv2d cin cout k s p) x =
     (case x of
        [n, c, h, w] \<Rightarrow>
          if 0 < cin \<and> 0 < cout \<and> c = cin \<and> k \<le> h + 2 * p \<and> k \<le> w + 2 * p
          then Inr [n, cout, window_out h k s p, window_out w k s p]
          else Inl RuntimeError
      | _ \<Rightarrow> Inl RuntimeError)"
| "layer_forward training (BatchNorm2d num_features) x =
     (case x of
        [n, c, h, w] \<Rightarrow>
          if num_features \<le> 0 \<or> c \<noteq> num_features then Inl RuntimeError
          else if training \<and> n * h * w = 1 then Inl ValueError
          else Inr x
      | _ \<Rightarrow> Inl RuntimeError)"
| "layer_forward training ReLU x = Inr x"
| "layer_forward training (MaxPool2d k s p) x =
     (case x of
        [n, c, h, w] \<Rightarrow>
          if k \<le> h + 2 * p \<and> k \<le> w + 2 * p
          then Inr [n, c, window_out h k s p, window_out w k s p]
          else Inl RuntimeError
      | _ \<Rightarrow> Inl RuntimeError)"
| "layer_forward training (AvgPool2d k s) x =
     (case x of
        [n, c, h, w] \<Rightarrow>
          if k \<le> h \<and> k \<le> w
          then Inr [n, c, window_out h k s 0, window_out w k s 0]
          else Inl RuntimeError
      | _ \<Rightarrow> Inl RuntimeError)"

definition Linear_forward :: "Linear \<Rightarrow> size_t \<Rightarrow> error + size_t" where
  "Linear_forward self x =
     (if 0 < in_features self \<and> 0 < out_features self \<and> x \<noteq> [] \<and> last x = in_features self
      then Inr (butlast x @ [out_features self])
      else Inl RuntimeError)"

text \<open>\<^verbatim>\<open>torch.cat([x, y], 1)\<close>: the sizes must agree except in dimension 1, which adds up.\<close>

definition torch_cat1 :: "size_t \<Rightarrow> size_t \<Rightarrow> error + size_t" where
  "torch_cat1 x y =
     (if length x = length y \<and> 1 < length x \<and> x[1 := 0] = y[1 := 0]
      then Inr (x[1 := x ! 1 + y ! 1])
      else Inl RuntimeError)"

text \<open>\<^verbatim>\<open>F.dropout(x, p, training)\<close> keeps the size and rejects a probability outside \<open>[0, 1]\<close>.\<close>

definition F_dropout :: "size_t \<Rightarrow> real \<Rightarrow> bool \<Rightarrow> error + size_t" where
  "F_dropout x p training = (if p < 0 \<or> 1 < p then Inl ValueError else Inr x)"

definition F_relu :: "size_t \<Rightarrow> size_t" where
  "F_relu x = x"

text \<open>\<^verbatim>\<open>F.avg_pool2d(x, kernel_size=k)\<close>: the stride defaults to the kernel size.\<close>

definition F_avg_pool2d :: "size_t \<Rightarrow> int \<Rightarrow> error + size_t" where
  "F_avg_pool2d x kernel_size = layer_forward False (AvgPool2d kernel_size kernel_size) x"

text \<open>\<^verbatim>\<open>x.size(0)\<close>.\<close>

definition size0 :: "size_t \<Rightarrow> error + int" where
  "size0 x = (case x of [] \<Rightarrow> Inl IndexError | n # _ \<Rightarrow> Inr n)"

text \<open>\<^verbatim>\<open>x.view(n, -1)\<close>: the second extent is inferred, which needs \<open>n\<close> positive and a divisor
  of the number of elements.\<close>

definition view_flat :: "size_t \<Rightarrow> int \<Rightarrow> error + size_t" where
  "view_flat x n =
     (if n \<le> 0 \<or> prod_list x mod n \<noteq> 0 then Inl RuntimeError
      else Inr [n, prod_list x div n])"

subsection \<open>\<^verbatim>\<open>nn.Sequential\<close>\<close>

text \<open>
  A \<^verbatim>\<open>Sequential\<close> keeps its children in an ordered dictionary: \<^verbatim>\<open>add_module\<close> replaces
  the child of an existing name in place and appends a new name at the end. Its forward
  pass runs the children in order and stops at the first error.
\<close>

definition add_module :: "string \<Rightarrow> 'm \<Rightarrow> (string \<times> 'm) list \<Rightarrow> (string \<times> 'm) list" where
  "add_module name m self = AList.update name m self"

fun Sequential_forward ::
  "('m \<Rightarrow> 'x \<Rightarrow> error + 'x) \<Rightarrow> (string \<times> 'm) list \<Rightarrow> 'x \<Rightarrow> error + 'x" where
  "Sequential_forward f [] x = Inr x"
| "Sequential_forward f (m # ms) x =
     (case f (snd m) x of Inl e \<Rightarrow> Inl e | Inr y \<Rightarrow> Sequential_forward f ms y)"

text \<open>Python's \<^verbatim>\<open>'%d' % i\<close>.\<close>

fun str_nat :: "nat \<Rightarrow> string" where
  "str_nat n =
     (if n < 10 then [''0123456789'' ! n]
      else str_nat (n div 10) @ [''0123456789'' ! (n mod 10)])"

definition format_d :: "int \<Rightarrow> string" where
  "format_d i = (if i < 0 then CHR ''-'' # str_nat (nat (- i)) else str_nat (nat i))"

subsection \<open>\<^verbatim>\<open>_DenseLayer\<close>\<close>

record DenseLayer =
  modules :: "(string \<times> layer) list"
  drop_rate :: real

definition DenseLayer_init :: "int \<Rightarrow> int \<Rightarrow> int \<Rightarrow> real \<Rightarrow> DenseLayer" where
  "DenseLayer_init num_input_features growth_rate bn_size drop_rate' =
     \<lparr> modules =
         add_module ''conv.2'' (Conv2d (bn_size * growth_rate) growth_rate 3 1 1)
        (add_module ''relu.2'' ReLU
        (add_module ''norm.2'' (BatchNorm2d (bn_size * growth_rate))
        (add_module ''conv.1'' (Conv2d num_input_features (bn_size * growth_rate) 1 1 0)
        (add_module ''relu.1'' ReLU
        (add_module ''norm.1'' (BatchNorm2d num_input_features) []))))),
       drop_rate = drop_rate' \<rparr>"

definition DenseLayer_forward :: "bool \<Rightarrow> DenseLayer \<Rightarrow> size_t \<Rightarrow> error + size_t" where
  "DenseLayer_forward training self x =
     (case Sequential_forward (layer_forward training) (modules self) x of
        Inl e \<Rightarrow> Inl e
      | Inr new_features \<Rightarrow>
          (case (if drop_rate self > 0 then F_dropout new_features (drop_rate self) training
                 else Inr new_features) of
             Inl e \<Rightarrow> Inl e
           | Inr new_features \<Rightarrow> torch_cat1 x new_features))"

subsection \<open>\<^verbatim>\<open>_DenseBlock\<close>\<close>

type_synonym DenseBlock = "(string \<times> DenseLayer) list"

definition DenseBlock_init :: "int \<Rightarrow> int \<Rightarrow> int \<Rightarrow> int \<Rightarrow> real \<Rightarrow> DenseBlock" where
  "DenseBlock_init num_layers num_input_features bn_size growth_rate drop_rate' =
     fold (\<lambda>i self.
             let layer = DenseLayer_init (num_input_features + int i * growth_rate)
                           growth_rate bn_size drop_rate'
             in add_module (''denselayer'' @ format_d (int i + 1)) layer self)
          [0..<nat num_layers] []"

definition DenseBlock_forward :: "bool \<Rightarrow> DenseBlock \<Rightarrow> size_t \<Rightarrow> error + size_t" where
  "DenseBlock_forward training self x = Sequential_forward (DenseLayer_forward training) self x"

subsection \<open>\<^verbatim>\<open>_Transition\<close>\<close>

type_synonym Transition = "(string \<times> layer) list"

definition Transition_init :: "int \<Rightarrow> int \<Rightarrow> Transition" where
  "Transition_init num_input_features num_output_features =
     add_module ''pool'' (AvgPool2d 2 2)
    (add_module ''conv'' (Conv2d num_input_features num_output_features 1 1 0)
    (add_module ''relu'' ReLU
    (add_module ''norm'' (BatchNorm2d num_input_features) [])))"

definition Transition_forward :: "bool \<Rightarrow> Transition \<Rightarrow> size_t \<Rightarrow> error + size_t" where
  "Transition_forward training self x = Sequential_forward (layer_forward training) self x"

subsection \<open>\<^verbatim>\<open>DenseNet\<close>\<close>

datatype child = Prim layer | Block DenseBlock | Trans Transition

record DenseNet =
  features :: "(string \<times> child) list"
  classifier :: Linear

fun child_forward :: "bool \<Rightarrow> child \<Rightarrow> size_t \<Rightarrow> error + size_t" where
  "child_forward training (Prim l) x = layer_forward training l x"
| "child_forward training (Block b) x = DenseBlock_forward training b x"
| "child_forward training (Trans t) x = Transition_forward training t x"

text \<open>
  One turn of the loop over \<^verbatim>\<open>enumerate(block_config)\<close>; the loop state is the feature
  stack built so far and \<^verbatim>\<open>num_features\<close>.
\<close>

definition stage_step ::
  "int \<Rightarrow> int \<Rightarrow> real \<Rightarrow> int list \<Rightarrow> nat \<times> int \<Rightarrow> (string \<times> child) list \<times> int
     \<Rightarrow> (string \<times> child) list \<times> int" where
  "stage_step growth_rate bn_size drop_rate' block_config = (\<lambda>(i, num_layers) (feats, num_features).
     let block = DenseBlock_init num_layers num_features bn_size growth_rate drop_rate';
         feats = add_module (''denseblock'' @ format_d (int i + 1)) (Block block) feats;
         num_features = num_features + num_layers * growth_rate
     in if int i \<noteq> int (length block_config) - 1
        then let trans = Transition_init num_features (num_features div 2);
                 feats = add_module (''transition'' @ format_d (int i + 1)) (Trans trans) feats
             in (feats, num_features div 2)
        else (feats, num_features))"

definition DenseNet_init :: "int \<Rightarrow> int list \<Rightarrow> int \<Rightarrow> int \<Rightarrow> real \<Rightarrow> int \<Rightarrow> DenseNet" where
  "DenseNet_init growth_rate block_config num_init_features bn_size drop_rate' num_classes =
     (let feats =
            add_module ''pool0'' (Prim (MaxPool2d 3 2 1))
           (add_module ''relu0'' (Prim ReLU)
           (add_module ''norm0'' (Prim (BatchNorm2d num_init_features))
           (add_module ''conv0'' (Prim (Conv2d 3 num_init_features 7 2 3)) [])));
          (feats, num_features) =
            fold (stage_step growth_rate bn_size drop_rate' block_config)
                 (enumerate 0 block_config) (feats, num_init_features);
          feats = add_module ''norm5'' (Prim (BatchNorm2d num_features)) feats
      in \<lparr> features = feats, classifier = Linear num_features num_classes \<rparr>)"

definition DenseNet_forward :: "bool \<Rightarrow> DenseNet \<Rightarrow> size_t \<Rightarrow> error + size_t" where
  "DenseNet_forward training self x =
     (case Sequential_forward (child_forward training) (features self) x of
        Inl e \<Rightarrow> Inl e
      | Inr feats \<Rightarrow>
          (case F_avg_pool2d (F_relu feats) 7 of
             Inl e \<Rightarrow> Inl e
           | Inr out \<Rightarrow>
               (case size0 feats of
                  Inl e \<Rightarrow> Inl e
                | Inr n \<Rightarrow>
                    (case view_flat out n of
                       Inl e \<Rightarrow> Inl e
                     | Inr out \<Rightarrow> Linear_forward (classifier self) out))))"

subsection \<open>Closed forms of the construction loops\<close>

text \<open>
  The loops of \<^verbatim>\<open>_DenseBlock.__init__\<close> and \<^verbatim>\<open>DenseNet.__init__\<close> written as the lists
  they build: the \<open>i\<close>-th dense layer of a block, the children the stage loop appends
  from stage \<open>i\<close> on, the value of \<^verbatim>\<open>num_features\<close> when the loop ends, and the four
  children in front of the first block. They are proved equal to what the loops build.
\<close>

definition nth_layer :: "int \<Rightarrow> int \<Rightarrow> int \<Rightarrow> real \<Rightarrow> nat \<Rightarrow> string \<times> DenseLayer" where
  "nth_layer c bn g dr i =
     (''denselayer'' @ format_d (int i + 1), DenseLayer_init (c + int i * g) g bn dr)"

fun stage_children ::
  "int \<Rightarrow> int \<Rightarrow> real \<Rightarrow> nat \<Rightarrow> int \<Rightarrow> int list \<Rightarrow> (string \<times> child) list" where
  "stage_children g bn dr i c [] = []"
| "stage_children g bn dr i c (n # ns) =
     (''denseblock'' @ format_d (int i + 1), Block (DenseBlock_init n c bn g dr)) #
     (if ns = [] then []
      else (''transition'' @ format_d (int i + 1),
            Trans (Transition_init (c + n * g) ((c + n * g) div 2))) #
           stage_children g bn dr (Suc i) ((c + n * g) div 2) ns)"

fun final_features :: "int \<Rightarrow> int \<Rightarrow> int list \<Rightarrow> int" where
  "final_features g c [] = c"
| "final_features g c (n # ns) =
     (if ns = [] then c + n * g else final_features g ((c + n * g) div 2) ns)"

definition stem :: "int \<Rightarrow> (string \<times> child) list" where
  "stem m = [(''conv0'', Prim (Conv2d 3 m 7 2 3)), (''norm0'', Prim (BatchNorm2d m)),
             (''relu0'', Prim ReLU), (''pool0'', Prim (MaxPool2d 3 2 1))]"

text \<open>
  The channel count entering stage \<open>i\<close> as the specification describes it: the initial
  feature count for the first stage, and for the next stage the count leaving the stage
  before it (its input plus layer count times growth rate), halved.
\<close>

fun stage_in :: "int \<Rightarrow> int \<Rightarrow> int list \<Rightarrow> nat \<Rightarrow> int" where
  "stage_in g c ns 0 = c"
| "stage_in g c ns (Suc i) = (stage_in g c ns i + ns ! i * g) div 2"

subsection \<open>Tensor contents\<close>

text \<open>
  Where a claim is about what a tensor holds, a four-dimensional tensor is its size
  together with its elements as nested lists (samples, channels, rows, columns) over an
  arbitrary element type. The numbers the library computes are not modelled: the
  function of the layer stack and of dropout are parameters, and \<open>lib_respects_sizes\<close>
  says that what they return has the size the size rules above give.
\<close>

record 'a tensor =
  tsize :: size_t
  elems :: "'a list list list list"

definition wf_tensor :: "'a tensor \<Rightarrow> bool" where
  "wf_tensor x =
     (case tsize x of
        [n, c, h, w] \<Rightarrow>
          int (length (elems x)) = n \<and>
          list_all (\<lambda>sample. int (length sample) = c \<and>
            list_all (\<lambda>channel. int (length channel) = h \<and>
              list_all (\<lambda>row. int (length row) = w) channel) sample) (elems x)
      | _ \<Rightarrow> False)"

definition torch_cat1_t :: "'a tensor \<Rightarrow> 'a tensor \<Rightarrow> error + 'a tensor" where
  "torch_cat1_t x y =
     (case torch_cat1 (tsize x) (tsize y) of
        Inl e \<Rightarrow> Inl e
      | Inr s \<Rightarrow> Inr \<lparr> tsize = s, elems = map2 (@) (elems x) (elems y) \<rparr>)"

definition lib_respects_sizes ::
  "((string \<times> layer) list \<Rightarrow> bool \<Rightarrow> 'a tensor \<Rightarrow> error + 'a tensor) \<Rightarrow>
   ('a tensor \<Rightarrow> real \<Rightarrow> bool \<Rightarrow> error + 'a tensor) \<Rightarrow> bool \<Rightarrow> bool" where
  "lib_respects_sizes seq dropout training \<longleftrightarrow>
     (\<forall>ms x y. wf_tensor x \<longrightarrow> seq ms training x = Inr y \<longrightarrow>
        wf_tensor y \<and> Sequential_forward (layer_forward training) ms (tsize x) = Inr (tsize y)) \<and>
     (\<forall>x p y. wf_tensor x \<longrightarrow> dropout x p training = Inr y \<longrightarrow>
        wf_tensor y \<and> F_dropout (tsize x) p training = Inr (tsize y))"

text \<open>
  \<^verbatim>\<open>_DenseLayer.forward\<close> on contents: \<open>seq\<close> is \<^verbatim>\<open>super().forward\<close>, the stack of
  normalisations, rectifiers and convolutions. The in-place rectifier of the stack works
  on the result of the normalisation before it, so \<open>x\<close> itself reaches \<^verbatim>\<open>torch.cat\<close>.
\<close>

definition DenseLayer_forward_t ::
  "((string \<times> layer) list \<Rightarrow> bool \<Rightarrow> 'a tensor \<Rightarrow> error + 'a tensor) \<Rightarrow>
   ('a tensor \<Rightarrow> real \<Rightarrow> bool \<Rightarrow> error + 'a tensor) \<Rightarrow>
   bool \<Rightarrow> DenseLayer \<Rightarrow> 'a tensor \<Rightarrow> error + 'a tensor" where
  "DenseLayer_forward_t seq dropout training self x =
     (case seq (modules self) training x of
        Inl e \<Rightarrow> Inl e
      | Inr new_features \<Rightarrow>
          (case (if drop_rate self > 0 then dropout new_features (drop_rate self) training
                 else Inr new_features) of
             Inl e \<Rightarrow> Inl e
           | Inr new_features \<Rightarrow> torch_cat1_t x new_features))"

definition DenseBlock_forward_t ::
  "((string \<times> layer) list \<Rightarrow> bool \<Rightarrow> 'a tensor \<Rightarrow> error + 'a tensor) \<Rightarrow>
   ('a tensor \<Rightarrow> real \<Rightarrow> bool \<Rightarrow> error + 'a tensor) \<Rightarrow>
   bool \<Rightarrow> DenseBlock \<Rightarrow> 'a tensor \<Rightarrow> error + 'a tensor" where
  "DenseBlock_forward_t seq dropout training self x =
     Sequential_forward (DenseLayer_forward_t seq dropout training) self x"

subsection \<open>\<^verbatim>\<open>densenet121\<close>\<close>

definition model_urls :: "(string \<times> string) list" where
  "model_urls =
     [(''densenet121'', ''https://download.pytorch.org/models/densenet121-241335ed.pth''),
      (''densenet169'', ''https://download.pytorch.org/models/densenet169-6f0f7f60.pth''),
      (''densenet201'', ''https://download.pytorch.org/models/densenet201-4c113574.pth''),
      (''densenet161'', ''https://download.pytorch.org/models/densenet161-17b70270.pth'')]"

text \<open>
  The function returns the network together with what its parameter tensors hold:
  \<open>None\<close> for the values the constructors initialised, \<open>Some p\<close> for what
  \<^verbatim>\<open>load_state_dict\<close> installed. Downloading (\<^verbatim>\<open>model_zoo.load_url\<close>) and installing are
  library calls, taken as parameters; either may raise. \<open>kwargs\<close> is the dictionary of
  the extra keyword arguments.
\<close>

definition densenet121 ::
  "(string \<Rightarrow> error + 'w) \<Rightarrow> (DenseNet \<Rightarrow> 'w \<Rightarrow> error + 'p) \<Rightarrow> bool \<Rightarrow> (string \<rightharpoonup> 'v)
     \<Rightarrow> error + DenseNet \<times> 'p option" where
  "densenet121 load_url load_state_dict pretrained kwargs =
     (let model = DenseNet_init 32 [6, 12, 24, 16] 64 4 0 1000
      in if pretrained
         then (case map_of model_urls ''densenet121'' of
                 None \<Rightarrow> Inl KeyError
               | Some url \<Rightarrow>
                   (case load_url url of
                      Inl e \<Rightarrow> Inl e
                    | Inr state_dict \<Rightarrow>
                        (case load_state_dict model state_dict of
                           Inl e \<Rightarrow> Inl e
                         | Inr p \<Rightarrow> Inr (model, Some p))))
         else Inr (model, None))"

subsection \<open>\<^verbatim>\<open>train_model\<close>\<close>

text \<open>
  The model is an object on the heap and is trained in place; \<^verbatim>\<open>best_model\<close> is a
  reference to an object. The heap is a list of object states, a reference is an index,
  \<^verbatim>\<open>copy.deepcopy\<close> allocates a new object. What one optimiser step or one forward pass
  does to the numbers is library behaviour and is a parameter (\<open>torch_ops\<close>), as are the
  data loaders (one list of batches per phase and pass) and the dataset sizes. Accuracy
  is the exact quotient; the floating-point rounding of the division is not modelled.
  The console holds the statistics line printed after each phase.
\<close>

datatype phase = Train | Val

record ('s, 'o, 'b, 'y) torch_ops =
  optim_scheduler :: "'s \<Rightarrow> nat \<Rightarrow> 'o"
  zero_grad :: "'o \<Rightarrow> 's \<Rightarrow> 's"
  run_model :: "'s \<Rightarrow> 'b \<Rightarrow> 's \<times> 'y"
  criterion :: "'y \<Rightarrow> 'b \<Rightarrow> real"
  count_correct :: "'y \<Rightarrow> 'b \<Rightarrow> int"
  backward_step :: "'o \<Rightarrow> 's \<Rightarrow> 'y \<Rightarrow> 'b \<Rightarrow> 'o \<times> 's"

record 's train_state =
  store :: "'s list"
  best_model :: nat
  best_acc :: real
  console :: "(phase \<times> real \<times> real) list"

text \<open>The loop over the batches of one phase.\<close>

fun run_batches ::
  "('s, 'o, 'b, 'y) torch_ops \<Rightarrow> phase \<Rightarrow> 'b list \<Rightarrow> 'o \<times> 's \<times> real \<times> int
     \<Rightarrow> 'o \<times> 's \<times> real \<times> int" where
  "run_batches ops ph [] acc = acc"
| "run_batches ops ph (data # rest) (optimizer, m, running_loss, running_corrects) =
     (let m = zero_grad ops optimizer m;
          (m, outputs) = run_model ops m data;
          loss = criterion ops outputs data;
          (optimizer, m) = (if ph = Train then backward_step ops optimizer m outputs data
                            else (optimizer, m))
      in run_batches ops ph rest
           (optimizer, m, running_loss + loss, running_corrects + count_correct ops outputs data))"

text \<open>One phase of one epoch, from the batch loop to the deep copy.\<close>

definition run_phase ::
  "('s, 'o, 'b, 'y) torch_ops \<Rightarrow> (phase \<Rightarrow> nat \<Rightarrow> 'b list) \<Rightarrow> (phase \<Rightarrow> nat) \<Rightarrow> nat \<Rightarrow> nat
     \<Rightarrow> phase \<Rightarrow> 'o \<Rightarrow> 's train_state \<Rightarrow> error + 'o \<times> 's train_state" where
  "run_phase ops dset_loaders dset_sizes model epoch ph optimizer st =
     (let (optimizer, m, running_loss, running_corrects) =
            run_batches ops ph (dset_loaders ph epoch) (optimizer, store st ! model, 0, 0);
          st = st\<lparr>store := (store st)[model := m]\<rparr>
      in if dset_sizes ph = 0 then Inl ZeroDivisionError
         else
           let epoch_loss = running_loss / real (dset_sizes ph);
               epoch_acc = real_of_int running_corrects / real (dset_sizes ph);
               st = st\<lparr>console := console st @ [(ph, epoch_loss, epoch_acc)]\<rparr>
           in if ph = Val \<and> epoch_acc > best_acc st
              then Inr (optimizer,
                        st\<lparr>best_acc := epoch_acc,
                           best_model := length (store st),
                           store := store st @ [store st ! model]\<rparr>)
              else Inr (optimizer, st))"

text \<open>One epoch: the training phase, which makes its optimiser first, then the validation phase.\<close>

definition run_epoch ::
  "('s, 'o, 'b, 'y) torch_ops \<Rightarrow> (phase \<Rightarrow> nat \<Rightarrow> 'b list) \<Rightarrow> (phase \<Rightarrow> nat) \<Rightarrow> nat \<Rightarrow> nat
     \<Rightarrow> 's train_state \<Rightarrow> error + 's train_state" where
  "run_epoch ops dset_loaders dset_sizes model epoch st =
     (let optimizer = optim_scheduler ops (store st ! model) epoch
      in case run_phase ops dset_loaders dset_sizes model epoch Train optimizer st of
           Inl e \<Rightarrow> Inl e
         | Inr (optimizer, st) \<Rightarrow>
             (case run_phase ops dset_loaders dset_sizes model epoch Val optimizer st of
                Inl e \<Rightarrow> Inl e
              | Inr (optimizer, st) \<Rightarrow> Inr st))"

text \<open>The state after the first \<open>k\<close> epochs, from a heap \<open>h\<close> that holds the model at \<open>model\<close>.\<close>

primrec run_epochs ::
  "('s, 'o, 'b, 'y) torch_ops \<Rightarrow> (phase \<Rightarrow> nat \<Rightarrow> 'b list) \<Rightarrow> (phase \<Rightarrow> nat) \<Rightarrow> 's list \<Rightarrow> nat
     \<Rightarrow> nat \<Rightarrow> error + 's train_state" where
  "run_epochs ops dset_loaders dset_sizes h model 0 =
     Inr \<lparr> store = h, best_model = model, best_acc = 0, console = [] \<rparr>"
| "run_epochs ops dset_loaders dset_sizes h model (Suc epoch) =
     (case run_epochs ops dset_loaders dset_sizes h model epoch of
        Inl e \<Rightarrow> Inl e
      | Inr st \<Rightarrow> run_epoch ops dset_loaders dset_sizes model epoch st)"

text \<open>
  \<^verbatim>\<open>train_model\<close> returns the reference \<^verbatim>\<open>best_model\<close>; the final state is returned with
  it, since the reference means something only on the final heap.
\<close>

definition train_model ::
  "('s, 'o, 'b, 'y) torch_ops \<Rightarrow> (phase \<Rightarrow> nat \<Rightarrow> 'b list) \<Rightarrow> (phase \<Rightarrow> nat) \<Rightarrow> 's list \<Rightarrow> nat
     \<Rightarrow> int \<Rightarrow> error + nat \<times> 's train_state" where
  "train_model ops dset_loaders dset_sizes h model num_epochs =
     (case run_epochs ops dset_loaders dset_sizes h model (nat num_epochs) of
        Inl e \<Rightarrow> Inl e
      | Inr st \<Rightarrow> Inr (best_model st, st))"

text \<open>The validation accuracy printed in epoch \<open>e\<close>: the second line of that epoch.\<close>

definition val_acc :: "'s train_state \<Rightarrow> nat \<Rightarrow> real" where
  "val_acc st e = snd (snd (console st ! (2 * e + 1)))"

text \<open>
  What the claim about the training loop says one batch does, written without the loop.
  A batch of the training phase: the gradients are zeroed, the model is run, and
  backpropagation and one optimiser step follow. A batch of the validation phase: the
  gradients are zeroed and the model is run, with neither backpropagation nor a step, and
  the right predictions are counted.
\<close>

definition train_batch :: "('s, 'o, 'b, 'y) torch_ops \<Rightarrow> 'o \<times> 's \<Rightarrow> 'b \<Rightarrow> 'o \<times> 's" where
  "train_batch ops = (\<lambda>(optimizer, m) data.
     let (m, outputs) = run_model ops (zero_grad ops optimizer m) data
     in backward_step ops optimizer m outputs data)"

definition val_batch :: "('s, 'o, 'b, 'y) torch_ops \<Rightarrow> 'o \<Rightarrow> 's \<times> int \<Rightarrow> 'b \<Rightarrow> 's \<times> int" where
  "val_batch ops optimizer = (\<lambda>(m, correct) data.
     let (m, outputs) = run_model ops (zero_grad ops optimizer m) data
     in (m, correct + count_correct ops outputs data))"

text \<open>
  A small instance for evaluation: the object state counts the optimiser steps taken, the
  model's output is that count, every batch has loss 1, and no prediction is right.
\<close>

definition counting_ops :: "(nat, unit, unit, nat) torch_ops" where
  "counting_ops =
     \<lparr> optim_scheduler = (\<lambda>m epoch. ()),
       zero_grad = (\<lambda>opt m. m),
       run_model = (\<lambda>m data. (m, m)),
       criterion = (\<lambda>outputs data. 1),
       count_correct = (\<lambda>outputs data. 0),
       backward_step = (\<lambda>opt m outputs data. (opt, Suc m)) \<rparr>"

text \<open>The same, except that the prediction is right once three steps have been taken.\<close>

definition learning_ops :: "(nat, unit, unit, nat) torch_ops" where
  "learning_ops =
     counting_ops\<lparr> count_correct := (\<lambda>outputs data. if 3 \<le> outputs then 1 else 0) \<rparr>"

subsection \<open>\<^verbatim>\<open>visualize_model\<close>\<close>

text \<open>\<^verbatim>\<open>torch.max(outputs, 1)\<close>: for every row the position of its first largest entry.\<close>

fun argmax_from :: "nat \<Rightarrow> real \<Rightarrow> nat \<Rightarrow> real list \<Rightarrow> nat" where
  "argmax_from best_i best i [] = best_i"
| "argmax_from best_i best i (v # vs) =
     (if v > best then argmax_from i v (Suc i) vs else argmax_from best_i best (Suc i) vs)"

definition torch_max1 :: "real list list \<Rightarrow> error + nat list" where
  "torch_max1 outputs =
     (if list_ex (\<lambda>row. row = []) outputs then Inl RuntimeError
      else Inr (map (\<lambda>row. argmax_from 0 (hd row) 1 (tl row)) outputs))"

text \<open>Indexing a Python list or the samples of a tensor: a negative index counts from the end.\<close>

definition getitem :: "'a list \<Rightarrow> int \<Rightarrow> error + 'a" where
  "getitem xs i =
     (if 0 \<le> i \<and> i < int (length xs) then Inr (xs ! nat i)
      else if i < 0 \<and> - int (length xs) \<le> i then Inr (xs ! nat (int (length xs) + i))
      else Inl IndexError)"

text \<open>
  The loop over the validation loader. The result is the list of figures shown, each an
  image with its title, and the error that ended the loop, if one did.
\<close>

fun visualize_batches ::
  "('img list \<Rightarrow> error + real list list) \<Rightarrow> string list \<Rightarrow> int \<Rightarrow> nat
     \<Rightarrow> ('img list \<times> int list) list \<Rightarrow> ('img \<times> string) list \<times> error option" where
  "visualize_batches model dset_classes num_images i [] = ([], None)"
| "visualize_batches model dset_classes num_images i (data # rest) =
     (let (inputs, labels) = data in
      case model inputs of
        Inl e \<Rightarrow> ([], Some e)
      | Inr outputs \<Rightarrow>
          (case torch_max1 outputs of
             Inl e \<Rightarrow> ([], Some e)
           | Inr preds \<Rightarrow>
               (case getitem inputs 0 of
                  Inl e \<Rightarrow> ([], Some e)
                | Inr img \<Rightarrow>
                    (case getitem labels 0 of
                       Inl e \<Rightarrow> ([], Some e)
                     | Inr label \<Rightarrow>
                         (case getitem dset_classes label of
                            Inl e \<Rightarrow> ([], Some e)
                          | Inr name \<Rightarrow>
                              (let figure = (img, ''pred: '' @ name)
                               in if int i = num_images - 1 then ([figure], None)
                                  else (let (figures, err) =
                                              visualize_batches model dset_classes num_images
                                                (Suc i) rest
                                        in (figure # figures, err))))))))"

definition visualize_model ::
  "('img list \<Rightarrow> error + real list list) \<Rightarrow> int \<Rightarrow> string list
     \<Rightarrow> ('img list \<times> int list) list \<Rightarrow> ('img \<times> string) list \<times> error option" where
  "visualize_model model num_images dset_classes val_loader =
     visualize_batches model dset_classes num_images 0 val_loader"

subsection \<open>A stand-in for the numeric library\<close>

text \<open>
  For evaluation on concrete tensors: a layer stack whose new features are all one
  constant, of the size the size rules give, and a dropout that keeps every element.
\<close>

definition fill :: "'a \<Rightarrow> size_t \<Rightarrow> 'a tensor" where
  "fill v s =
     \<lparr> tsize = s,
       elems = (case s of
                  [n, c, h, w] \<Rightarrow>
                    replicate (nat n) (replicate (nat c) (replicate (nat h) (replicate (nat w) v)))
                | _ \<Rightarrow> []) \<rparr>"

definition const_seq ::
  "'a \<Rightarrow> (string \<times> layer) list \<Rightarrow> bool \<Rightarrow> 'a tensor \<Rightarrow> error + 'a tensor" where
  "const_seq v ms training x =
     (case Sequential_forward (layer_forward training) ms (tsize x) of
        Inl e \<Rightarrow> Inl e
      | Inr s \<Rightarrow> if wf_tensor (fill v s) then Inr (fill v s) else Inl RuntimeError)"

definition keep_all :: "'a tensor \<Rightarrow> real \<Rightarrow> bool \<Rightarrow> error + 'a tensor" where
  "keep_all x p training =
     (case F_dropout (tsize x) p training of Inl e \<Rightarrow> Inl e | Inr s \<Rightarrow> Inr x)"

section \<open>Properties\<close>

subsection \<open>Module names\<close>

lemma add_module_fresh:
  "name \<notin> fst ` set self \<Longrightarrow> add_module name m self = self @ [(name, m)]"
  unfolding add_module_def by (induction self) auto

lemma str_nat_nonempty: "str_nat n \<noteq> []"
  by (subst str_nat.simps) simp

lemma digit_inj: "a < 10 \<Longrightarrow> b < 10 \<Longrightarrow> ''0123456789'' ! a = ''0123456789'' ! b \<Longrightarrow> a = b"
proof -
  assume a: "a < 10" and b: "b < 10" and e: "''0123456789'' ! a = ''0123456789'' ! b"
  have d: "distinct ''0123456789''" by simp
  have "a < length ''0123456789''" "b < length ''0123456789''" using a b by simp_all
  with d e show "a = b" using nth_eq_iff_index_eq by blast
qed

lemma str_nat_inj: "str_nat a = str_nat b \<Longrightarrow> a = b"
proof (induction a arbitrary: b rule: str_nat.induct)
  case (1 n)
  show ?case
  proof (cases "n < 10")
    case True
    then have l: "length (str_nat n) = 1" by (subst str_nat.simps) simp
    have "b < 10"
    proof (rule ccontr)
      assume "\<not> b < 10"
      then have "length (str_nat b) = length (str_nat (b div 10)) + 1" by (subst str_nat.simps) simp
      moreover have "length (str_nat (b div 10)) \<noteq> 0" using str_nat_nonempty by simp
      ultimately show False using l "1.prems" by simp
    qed
    with True "1.prems" show ?thesis
      using digit_inj[of n b] by (subst (asm) str_nat.simps, subst (asm) (2) str_nat.simps) simp
  next
    case False
    then have en: "str_nat n = str_nat (n div 10) @ [''0123456789'' ! (n mod 10)]"
      by (subst str_nat.simps) simp
    have nb: "\<not> b < 10"
    proof
      assume "b < 10"
      then have "length (str_nat b) = 1" by (subst str_nat.simps) simp
      moreover have "length (str_nat n) = length (str_nat (n div 10)) + 1" using en by simp
      moreover have "length (str_nat (n div 10)) \<noteq> 0" using str_nat_nonempty by simp
      ultimately show False using "1.prems" by simp
    qed
    then have eb: "str_nat b = str_nat (b div 10) @ [''0123456789'' ! (b mod 10)]"
      by (subst str_nat.simps) simp
    from en eb "1.prems" have e1: "str_nat (n div 10) = str_nat (b div 10)"
      and e2: "''0123456789'' ! (n mod 10) = ''0123456789'' ! (b mod 10)" by simp_all
    from "1.IH"[OF False e1] have d: "n div 10 = b div 10" .
    have m: "n mod 10 = b mod 10" using digit_inj[OF _ _ e2] by simp
    show ?thesis using d m by (metis div_mult_mod_eq)
  qed
qed

lemma format_d_inj: "0 \<le> a \<Longrightarrow> 0 \<le> b \<Longrightarrow> format_d a = format_d b \<Longrightarrow> a = b"
  using str_nat_inj[of "nat a" "nat b"] by (simp add: format_d_def)

lemma DenseLayer_modules:
  "modules (DenseLayer_init c g bn dr) =
     [(''norm.1'', BatchNorm2d c), (''relu.1'', ReLU), (''conv.1'', Conv2d c (bn * g) 1 1 0),
      (''norm.2'', BatchNorm2d (bn * g)), (''relu.2'', ReLU), (''conv.2'', Conv2d (bn * g) g 3 1 1)]"
  by (simp add: DenseLayer_init_def add_module_def)

lemma Transition_modules:
  "Transition_init c c' =
     [(''norm'', BatchNorm2d c), (''relu'', ReLU), (''conv'', Conv2d c c' 1 1 0), (''pool'', AvgPool2d 2 2)]"
  by (simp add: Transition_init_def add_module_def)

subsection \<open>What the construction loops build, and the size rules of the parts\<close>

lemma Sequential_forward_append:
  "Sequential_forward f (xs @ ys) x =
     (case Sequential_forward f xs x of Inl e \<Rightarrow> Inl e | Inr y \<Rightarrow> Sequential_forward f ys y)"
  by (induction xs arbitrary: x) (auto split: sum.splits)

lemma fold_add_module:
  "inj_on (\<lambda>i. fst (h i)) {0..<k} \<Longrightarrow>
   fold (\<lambda>i self. add_module (fst (h i)) (snd (h i)) self) [0..<k] [] = map h [0..<k]"
proof (induction k)
  case 0
  show ?case by simp
next
  case (Suc k)
  have inj: "inj_on (\<lambda>i. fst (h i)) {0..<k}"
    using Suc.prems by (rule inj_on_subset) auto
  have fresh: "fst (h k) \<notin> fst ` set (map h [0..<k])"
  proof
    assume "fst (h k) \<in> fst ` set (map h [0..<k])"
    then obtain j where j: "j < k" and e: "fst (h k) = fst (h j)" by auto
    from Suc.prems e j have "k = j" by (auto dest!: inj_onD[where x = k and y = j])
    with j show False by simp
  qed
  show ?case
    using Suc.IH[OF inj] add_module_fresh[OF fresh] by simp
qed

lemma nth_layer_inj: "inj_on (\<lambda>i. fst (nth_layer c bn g dr i)) A"
proof (rule inj_onI)
  fix x y assume "fst (nth_layer c bn g dr x) = fst (nth_layer c bn g dr y)"
  then have "format_d (int x + 1) = format_d (int y + 1)" by (simp add: nth_layer_def)
  then have "int x + 1 = int y + 1" by (rule format_d_inj[rotated 2]) simp_all
  then show "x = y" by simp
qed

lemma DenseBlock_fold:
  "fold (\<lambda>i self.
             let layer = DenseLayer_init (c + int i * g) g bn dr
             in add_module (''denselayer'' @ format_d (int i + 1)) layer self)
          [0..<k] [] = map (nth_layer c bn g dr) [0..<k]"
proof -
  have "(\<lambda>i self.
             let layer = DenseLayer_init (c + int i * g) g bn dr
             in add_module (''denselayer'' @ format_d (int i + 1)) layer self)
        = (\<lambda>i self. add_module (fst (nth_layer c bn g dr i)) (snd (nth_layer c bn g dr i)) self)"
    by (simp add: nth_layer_def)
  then show ?thesis
    using fold_add_module[OF nth_layer_inj, of c bn g dr k] by simp
qed

lemma DenseBlock_layers:
  "DenseBlock_init n c bn g dr = map (nth_layer c bn g dr) [0..<nat n]"
  unfolding DenseBlock_init_def by (rule DenseBlock_fold)

lemma window_out_simps [simp]:
  "window_out h 1 1 0 = h" "window_out h 3 1 1 = h"
  by (simp_all add: window_out_def)

lemma torch_cat1_4 [simp]:
  "torch_cat1 [n, c, h, w] [n', c', h', w'] =
     (if n = n' \<and> h = h' \<and> w = w' then Inr [n, c + c', h, w] else Inl RuntimeError)"
  by (auto simp: torch_cat1_def)

lemma DenseLayer_drop_rate: "drop_rate (DenseLayer_init c g bn dr) = dr"
  by (simp add: DenseLayer_init_def)

lemma DenseLayer_forward_4:
  "DenseLayer_forward tr (DenseLayer_init c g bn dr) [n, c', h, w] = Inr y \<longleftrightarrow>
     c' = c \<and> 0 < c \<and> 0 < g \<and> 0 < bn * g \<and> 1 \<le> h \<and> 1 \<le> w \<and> \<not> (tr \<and> n * h * w = 1) \<and> dr \<le> 1
       \<and> y = [n, c + g, h, w]"
  by (auto simp: DenseLayer_forward_def DenseLayer_modules DenseLayer_drop_rate F_dropout_def)

lemma DenseLayer_forward_dims:
  "DenseLayer_forward tr (DenseLayer_init c g bn dr) x = Inr y \<Longrightarrow> \<exists>n h w. x = [n, c, h, w]"
  by (auto simp: DenseLayer_forward_def DenseLayer_modules split: sum.splits list.splits if_splits)

lemma Sequential_forward_single: "Sequential_forward f [m] x = f (snd m) x"
  by (simp split: sum.splits)

lemma Sequential_forward_snoc:
  "Sequential_forward f (xs @ [m]) x = Inr y \<longleftrightarrow>
     (\<exists>z. Sequential_forward f xs x = Inr z \<and> f (snd m) z = Inr y)"
  by (auto simp: Sequential_forward_append split: sum.splits)

lemma Sequential_forward_append_iff:
  "Sequential_forward f (xs @ ys) x = Inr y \<longleftrightarrow>
     (\<exists>z. Sequential_forward f xs x = Inr z \<and> Sequential_forward f ys z = Inr y)"
  by (auto simp: Sequential_forward_append split: sum.splits)

lemma Sequential_forward_Cons_iff:
  "Sequential_forward f (m # ms) x = Inr y \<longleftrightarrow>
     (\<exists>z. f (snd m) x = Inr z \<and> Sequential_forward f ms z = Inr y)"
  by (auto split: sum.splits)

lemma block_prefix_forward:
  "Sequential_forward (DenseLayer_forward tr) (map (nth_layer c bn g dr) [0..<k]) [n, c', h, w] = Inr y \<longleftrightarrow>
     (k = 0 \<and> y = [n, c', h, w]) \<or>
     (0 < k \<and> c' = c \<and> 0 < c \<and> 0 < g \<and> 0 < bn * g \<and> 1 \<le> h \<and> 1 \<le> w
        \<and> \<not> (tr \<and> n * h * w = 1) \<and> dr \<le> 1 \<and> y = [n, c + int k * g, h, w])"
proof (induction k arbitrary: y)
  case 0
  show ?case by auto
next
  case (Suc k)
  have s: "snd (nth_layer c bn g dr k) = DenseLayer_init (c + int k * g) g bn dr"
    by (simp add: nth_layer_def)
  have a: "c + int k * g + g = c + int (Suc k) * g" by (simp add: algebra_simps)
  have pos: "0 < c \<Longrightarrow> 0 < g \<Longrightarrow> 0 < c + int k * g"
  proof -
    assume c: "0 < c" and g: "0 < g"
    have "0 \<le> int k * g" using g by (intro mult_nonneg_nonneg) simp_all
    with c show ?thesis by simp
  qed
  show ?case
  proof (cases "k = 0")
    case True
    then show ?thesis
      by (auto simp: nth_layer_def DenseLayer_forward_4 Sequential_forward_single
               simp del: Sequential_forward.simps)
  next
    case False
    then have IH: "\<And>z. Sequential_forward (DenseLayer_forward tr) (map (nth_layer c bn g dr) [0..<k]) [n, c', h, w] = Inr z \<longleftrightarrow>
       c' = c \<and> 0 < c \<and> 0 < g \<and> 0 < bn * g \<and> 1 \<le> h \<and> 1 \<le> w \<and> \<not> (tr \<and> n * h * w = 1) \<and> dr \<le> 1
         \<and> z = [n, c + int k * g, h, w]"
      using Suc.IH by simp
    show ?thesis
      unfolding upt_Suc_append[OF le0] map_append list.map Sequential_forward_snoc IH s
      using pos by (auto simp: DenseLayer_forward_4 a)
  qed
qed

lemma Transition_forward_4:
  "Transition_forward tr (Transition_init c c2) [n, c', h, w] = Inr y \<longleftrightarrow>
     c' = c \<and> 0 < c \<and> 0 < c2 \<and> 2 \<le> h \<and> 2 \<le> w \<and> \<not> (tr \<and> n * h * w = 1)
       \<and> y = [n, c2, h div 2, w div 2]"
  by (auto simp: Transition_forward_def Transition_modules window_out_def)

lemma stage_children_names:
  "x \<in> fst ` set (stage_children g bn dr i c ns) \<Longrightarrow>
     \<exists>k\<ge>i. x = ''denseblock'' @ format_d (int k + 1) \<or> x = ''transition'' @ format_d (int k + 1)"
proof (induction ns arbitrary: i c)
  case Nil
  then show ?case by simp
next
  case (Cons n ns)
  show ?case
  proof (cases "ns = []")
    case True
    with Cons.prems show ?thesis by auto
  next
    case False
    with Cons.prems consider "x = ''denseblock'' @ format_d (int i + 1)"
      | "x = ''transition'' @ format_d (int i + 1)"
      | "x \<in> fst ` set (stage_children g bn dr (Suc i) ((c + n * g) div 2) ns)"
      by auto
    then show ?thesis
    proof cases
      case 1 then show ?thesis by blast
    next
      case 2 then show ?thesis by blast
    next
      case 3
      from Cons.IH[OF 3] obtain k where "k \<ge> Suc i"
        "x = ''denseblock'' @ format_d (int k + 1) \<or> x = ''transition'' @ format_d (int k + 1)" by blast
      then show ?thesis by (intro exI[of _ k]) simp
    qed
  qed
qed

lemma format_d_succ_inj: "format_d (int k + 1) = format_d (int i + 1) \<Longrightarrow> k = i"
  using format_d_inj[of "int k + 1" "int i + 1"] by simp

lemma fold_stage_step:
  assumes "i + length ns = length cfg"
    and "\<And>k. k \<ge> i \<Longrightarrow> ''denseblock'' @ format_d (int k + 1) \<notin> fst ` set fs"
    and "\<And>k. k \<ge> i \<Longrightarrow> ''transition'' @ format_d (int k + 1) \<notin> fst ` set fs"
  shows "fold (stage_step g bn dr cfg) (enumerate i ns) (fs, c) =
           (fs @ stage_children g bn dr i c ns, final_features g c ns)"
  using assms
proof (induction ns arbitrary: i fs c)
  case Nil
  show ?case by simp
next
  case (Cons n ns)
  let ?b = "(''denseblock'' @ format_d (int i + 1), Block (DenseBlock_init n c bn g dr))"
  let ?c = "c + n * g"
  let ?t = "(''transition'' @ format_d (int i + 1), Trans (Transition_init ?c (?c div 2)))"
  have bf: "fst ?b \<notin> fst ` set fs" using Cons.prems(2)[of i] by simp
  have b: "add_module (fst ?b) (snd ?b) fs = fs @ [?b]"
    using add_module_fresh[OF bf, of "snd ?b"] by simp
  show ?case
  proof (cases "ns = []")
    case True
    then have last: "\<not> int i \<noteq> int (length cfg) - 1" using Cons.prems(1) by simp
    show ?thesis using True last b by (simp add: stage_step_def Let_def)
  next
    case False
    then have notlast: "int i \<noteq> int (length cfg) - 1" using Cons.prems(1) by (cases ns) auto
    have tf: "fst ?t \<notin> fst ` set (fs @ [?b])" using Cons.prems(3)[of i] by simp
    have t: "add_module (fst ?t) (snd ?t) (fs @ [?b]) = (fs @ [?b]) @ [?t]"
      using add_module_fresh[OF tf, of "snd ?t"] by simp
    have step: "stage_step g bn dr cfg (i, n) (fs, c) = (fs @ [?b, ?t], ?c div 2)"
      using notlast b t by (simp add: stage_step_def Let_def)
    have IH: "fold (stage_step g bn dr cfg) (enumerate (Suc i) ns) (fs @ [?b, ?t], ?c div 2) =
           ((fs @ [?b, ?t]) @ stage_children g bn dr (Suc i) (?c div 2) ns, final_features g (?c div 2) ns)"
    proof (rule Cons.IH)
      show "Suc i + length ns = length cfg" using Cons.prems(1) by simp
    next
      fix k assume k: "Suc i \<le> k"
      then have "k \<noteq> i" by simp
      then have "format_d (int k + 1) \<noteq> format_d (int i + 1)" using format_d_succ_inj by blast
      then show "''denseblock'' @ format_d (int k + 1) \<notin> fst ` set (fs @ [?b, ?t])"
        using Cons.prems(2)[of k] k by simp
    next
      fix k assume k: "Suc i \<le> k"
      then have "k \<noteq> i" by simp
      then have "format_d (int k + 1) \<noteq> format_d (int i + 1)" using format_d_succ_inj by blast
      then show "''transition'' @ format_d (int k + 1) \<notin> fst ` set (fs @ [?b, ?t])"
        using Cons.prems(3)[of k] k by simp
    qed
    show ?thesis using False step IH by simp
  qed
qed

lemma stem_built:
  "add_module ''pool0'' (Prim (MaxPool2d 3 2 1))
           (add_module ''relu0'' (Prim ReLU)
           (add_module ''norm0'' (Prim (BatchNorm2d m))
           (add_module ''conv0'' (Prim (Conv2d 3 m 7 2 3)) []))) = stem m"
  by (simp add: add_module_def stem_def)

lemma DenseNet_init_explicit:
  "DenseNet_init g ns m bn dr nc =
     \<lparr> features = stem m @ stage_children g bn dr 0 m ns @
                    [(''norm5'', Prim (BatchNorm2d (final_features g m ns)))],
       classifier = Linear (final_features g m ns) nc \<rparr>"
proof -
  have f: "fold (stage_step g bn dr ns) (enumerate 0 ns) (stem m, m) =
           (stem m @ stage_children g bn dr 0 m ns, final_features g m ns)"
    by (rule fold_stage_step) (simp_all add: stem_def)
  have "''norm5'' \<notin> fst ` set (stem m @ stage_children g bn dr 0 m ns)"
  proof
    assume "''norm5'' \<in> fst ` set (stem m @ stage_children g bn dr 0 m ns)"
    then have "''norm5'' \<in> fst ` set (stage_children g bn dr 0 m ns)" by (auto simp: stem_def)
    from stage_children_names[OF this] show False by auto
  qed
  from add_module_fresh[OF this]
  show ?thesis unfolding DenseNet_init_def stem_built Let_def f by simp
qed






lemma DenseBlock_forward_4:
  "DenseBlock_forward tr (DenseBlock_init n c bn g dr) [N, c', h, w] = Inr y \<longleftrightarrow>
     (n \<le> 0 \<and> y = [N, c', h, w]) \<or>
     (0 < n \<and> c' = c \<and> 0 < c \<and> 0 < g \<and> 0 < bn * g \<and> 1 \<le> h \<and> 1 \<le> w
        \<and> \<not> (tr \<and> N * h * w = 1) \<and> dr \<le> 1 \<and> y = [N, c + n * g, h, w])"
  unfolding DenseBlock_forward_def DenseBlock_layers block_prefix_forward
  by auto

subsection \<open>The forward pass of a four-stage network\<close>

lemma stem_forward:
  assumes m: "0 < m"
  shows "Sequential_forward (child_forward tr) (stem m @ rest) [N, 3, H, W] = Inr y \<longleftrightarrow>
     1 \<le> H \<and> 1 \<le> W \<and> \<not> (tr \<and> N * ((H - 1) div 2 + 1) * ((W - 1) div 2 + 1) = 1) \<and>
     Sequential_forward (child_forward tr) rest
       [N, m, (H - 1) div 4 + 1, (W - 1) div 4 + 1] = Inr y"
proof -
  have a: "\<And>x::int. ((x - 1) div 2) div 2 = (x - 1) div 4" by presburger
  have b: "\<And>x::int. 1 \<le> x \<Longrightarrow> 1 \<le> (x - 1) div 2 + 1 + 2" by presburger
  have conv0: "layer_forward tr (Conv2d 3 m 7 2 3) [N, 3, H, W] =
      (if 1 \<le> H \<and> 1 \<le> W then Inr [N, m, (H - 1) div 2 + 1, (W - 1) div 2 + 1] else Inl RuntimeError)"
    using m by (simp add: window_out_def)
  have pool0: "\<And>h w. 1 \<le> H \<Longrightarrow> 1 \<le> W \<Longrightarrow> layer_forward tr (MaxPool2d 3 2 1) [N, m, (H - 1) div 2 + 1, (W - 1) div 2 + 1] =
      Inr [N, m, (H - 1) div 4 + 1, (W - 1) div 4 + 1]"
    using b[of H] b[of W] by (simp add: window_out_def a)
  have bnT: "tr \<and> N * ((H - 1) div 2 + 1) * ((W - 1) div 2 + 1) = 1 \<Longrightarrow>
      layer_forward tr (BatchNorm2d m) [N, m, (H - 1) div 2 + 1, (W - 1) div 2 + 1] = Inl ValueError"
    using m by simp
  have bnF: "\<not> (tr \<and> N * ((H - 1) div 2 + 1) * ((W - 1) div 2 + 1) = 1) \<Longrightarrow>
      layer_forward tr (BatchNorm2d m) [N, m, (H - 1) div 2 + 1, (W - 1) div 2 + 1] =
        Inr [N, m, (H - 1) div 2 + 1, (W - 1) div 2 + 1]"
    using m by auto
  have unf: "Sequential_forward (child_forward tr) (stem m @ rest) [N, 3, H, W] =
      (case layer_forward tr (Conv2d 3 m 7 2 3) [N, 3, H, W] of Inl e \<Rightarrow> Inl e
       | Inr a \<Rightarrow> (case layer_forward tr (BatchNorm2d m) a of Inl e \<Rightarrow> Inl e
       | Inr b \<Rightarrow> (case layer_forward tr (MaxPool2d 3 2 1) b of Inl e \<Rightarrow> Inl e
       | Inr c \<Rightarrow> Sequential_forward (child_forward tr) rest c)))"
    by (simp add: stem_def del: layer_forward.simps(1) layer_forward.simps(2) layer_forward.simps(4)
          split: sum.split)
  show ?thesis
  proof (cases "1 \<le> H \<and> 1 \<le> W")
    case False
    then show ?thesis unfolding unf conv0 by auto
  next
    case True
    then have c: "layer_forward tr (Conv2d 3 m 7 2 3) [N, 3, H, W] =
        Inr [N, m, (H - 1) div 2 + 1, (W - 1) div 2 + 1]" using conv0 by simp
    show ?thesis
    proof (cases "tr \<and> N * ((H - 1) div 2 + 1) * ((W - 1) div 2 + 1) = 1")
      case True
      show ?thesis unfolding unf c sum.case bnT[OF True] using True by simp
    next
      case False
      show ?thesis unfolding unf c sum.case bnF[OF False] using False True pool0 by simp
    qed
  qed
qed

lemma prod_ne_1: "0 < (N::int) \<Longrightarrow> 2 \<le> h \<Longrightarrow> 1 \<le> w \<Longrightarrow> N * h * w \<noteq> 1"
proof -
  assume N: "0 < N" and h: "2 \<le> h" and w: "1 \<le> w"
  have "1 * 2 \<le> N * h" using N h by (intro mult_mono) simp_all
  then have "2 * 1 \<le> (N * h) * w" using w by (intro mult_mono) simp_all
  then show ?thesis by simp
qed

lemma DenseBlock_forward_nonneg:
  "0 \<le> n \<Longrightarrow>
   DenseBlock_forward tr (DenseBlock_init n c bn g dr) [N, c, h, w] = Inr y \<longleftrightarrow>
     (n = 0 \<or> 0 < c \<and> 0 < g \<and> 0 < bn * g \<and> 1 \<le> h \<and> 1 \<le> w \<and> \<not> (tr \<and> N * h * w = 1)
        \<and> dr \<le> 1) \<and>
     y = [N, c + n * g, h, w]"
  unfolding DenseBlock_forward_4 by auto

lemma stage_out_pos:
  fixes c n g :: int
  shows "0 < c \<Longrightarrow> 0 \<le> n \<Longrightarrow> 0 < g \<Longrightarrow> 0 < c + n * g"
proof -
  assume c: "0 < c" and n: "0 \<le> n" and g: "0 < g"
  have "0 \<le> n * g" using n g by (intro mult_nonneg_nonneg) simp_all
  with c show ?thesis by simp
qed

lemma stage_forward:
  assumes "0 < N" "0 \<le> n" "dr \<le> 1" "0 < c" "0 < g" "0 < bn" "0 < c2"
  shows "Sequential_forward (child_forward tr)
           ((a, Block (DenseBlock_init n c bn g dr)) #
            (b, Trans (Transition_init (c + n * g) c2)) # rest) [N, c, h, w] = Inr y \<longleftrightarrow>
         2 \<le> h \<and> 2 \<le> w \<and>
         Sequential_forward (child_forward tr) rest [N, c2, h div 2, w div 2] = Inr y"
proof -
  have ne: "2 \<le> h \<Longrightarrow> 2 \<le> w \<Longrightarrow> N * h * w \<noteq> 1"
    using prod_ne_1[OF assms(1), of h w] by simp
  have p: "0 < c + n * g" using assms by (intro stage_out_pos)
  have q: "0 < bn * g" using assms by simp
  show ?thesis
    using assms(1-5) assms(7) p q ne
    by (auto simp: Sequential_forward_Cons_iff DenseBlock_forward_nonneg Transition_forward_4
             simp del: Sequential_forward.simps)
qed

lemma last_stage_forward:
  assumes "0 \<le> n" "dr \<le> 1" "0 < c" "0 < g" "0 < bn"
  shows "Sequential_forward (child_forward tr)
           [(a, Block (DenseBlock_init n c bn g dr)), (b, Prim (BatchNorm2d (c + n * g)))]
           [N, c, h, w] = Inr y \<longleftrightarrow>
         (n = 0 \<or> 1 \<le> h \<and> 1 \<le> w) \<and> \<not> (tr \<and> N * h * w = 1) \<and> y = [N, c + n * g, h, w]"
proof -
  have p: "0 < c + n * g" using assms by (intro stage_out_pos)
  have q: "0 < bn * g" using assms by simp
  show ?thesis
    using assms(1-4) p q
    by (auto simp: Sequential_forward_Cons_iff DenseBlock_forward_nonneg
             simp del: Sequential_forward.simps(2))
qed

lemma head_forward:
  assumes "0 < N" "0 < C" "0 < nc"
  shows "(case F_avg_pool2d (F_relu [N, C, h, w]) 7 of
             Inl e \<Rightarrow> Inl e
           | Inr out \<Rightarrow>
               (case size0 [N, C, h, w] of
                  Inl e \<Rightarrow> Inl e
                | Inr n \<Rightarrow>
                    (case view_flat out n of
                       Inl e \<Rightarrow> Inl e
                     | Inr out \<Rightarrow> Linear_forward (Linear C nc) out))) = Inr y \<longleftrightarrow>
         7 \<le> h \<and> h < 14 \<and> 7 \<le> w \<and> w < 14 \<and> y = [N, nc]"
proof (cases "7 \<le> h \<and> 7 \<le> w")
  case False
  then show ?thesis by (auto simp: F_avg_pool2d_def F_relu_def)
next
  case True
  then have hw: "1 \<le> h div 7" "1 \<le> w div 7" by presburger+
  have pool: "F_avg_pool2d (F_relu [N, C, h, w]) 7 = Inr [N, C, h div 7, w div 7]"
    using True by (simp add: F_avg_pool2d_def F_relu_def window_out_def) presburger
  have pr: "prod_list [N, C, h div 7, w div 7] = N * (C * ((h div 7) * (w div 7)))" by simp
  have view: "view_flat [N, C, h div 7, w div 7] N = Inr [N, C * ((h div 7) * (w div 7))]"
    unfolding view_flat_def pr using assms(1) by simp
  have one: "C * ((h div 7) * (w div 7)) = C \<longleftrightarrow> h div 7 = 1 \<and> w div 7 = 1"
  proof
    assume "C * ((h div 7) * (w div 7)) = C"
    then have e: "(h div 7) * (w div 7) = 1" using assms(2) by simp
    moreover have "0 < h div 7" using hw by simp
    ultimately show "h div 7 = 1 \<and> w div 7 = 1" by (simp add: pos_zmult_eq_1_iff)
  qed simp
  have r: "h div 7 = 1 \<and> w div 7 = 1 \<longleftrightarrow> h < 14 \<and> w < 14" using True by presburger
  have lin: "Linear_forward (Linear C nc) [N, C * ((h div 7) * (w div 7))] = Inr y \<longleftrightarrow>
        C * ((h div 7) * (w div 7)) = C \<and> y = [N, nc]"
    using assms by (auto simp: Linear_forward_def)
  have s0: "size0 [N, C, h, w] = Inr N" by (simp add: size0_def)
  show ?thesis
    unfolding pool s0 view sum.case lin one r using True by blast
qed

lemma forward_case_iff:
  "(case r of Inl e \<Rightarrow> Inl e | Inr z \<Rightarrow> k z) = Inr y \<longleftrightarrow> (\<exists>z. r = Inr z \<and> k z = Inr y)"
  by (cases r) auto

lemma spatial_range:
  fixes H :: int
  shows "1 \<le> H \<and> 2 \<le> (H - 1) div 4 + 1 \<and> 2 \<le> ((H - 1) div 4 + 1) div 2
       \<and> 2 \<le> ((H - 1) div 4 + 1) div 2 div 2
       \<and> 7 \<le> ((H - 1) div 4 + 1) div 2 div 2 div 2 \<and> ((H - 1) div 4 + 1) div 2 div 2 div 2 < 14
     \<longleftrightarrow> 221 \<le> H \<and> H \<le> 444"
proof -
  define t where "t = (H - 1) div 4 + 1"
  have d4: "t div 2 div 2 = t div 4" by (simp add: div_mult2_eq[symmetric])
  have d8: "t div 2 div 2 div 2 = t div 8" by (simp add: div_mult2_eq[symmetric])
  have a: "7 \<le> t div 8 \<longleftrightarrow> 56 \<le> t" by presburger
  have b: "t div 8 < 14 \<longleftrightarrow> t < 112" by presburger
  have c: "2 \<le> t div 2 \<longleftrightarrow> 4 \<le> t" by presburger
  have d: "2 \<le> t div 4 \<longleftrightarrow> 8 \<le> t" by presburger
  have e: "56 \<le> t \<longleftrightarrow> 221 \<le> H" unfolding t_def by presburger
  have f: "t < 112 \<longleftrightarrow> H \<le> 444" unfolding t_def by presburger
  show ?thesis
    unfolding t_def[symmetric] d4 d8 a b c d using e f by auto
qed

lemma features_4stage:
  assumes N: "0 < N" and n: "0 \<le> n1" "0 \<le> n2" "0 \<le> n3" "0 \<le> n4" and dr: "dr \<le> 1"
    and g: "0 < g" and bn: "0 < bn" and m: "0 < m"
    and c1: "0 < (m + n1 * g) div 2"
    and c2: "0 < ((m + n1 * g) div 2 + n2 * g) div 2"
    and c3: "0 < (((m + n1 * g) div 2 + n2 * g) div 2 + n3 * g) div 2"
  shows "Sequential_forward (child_forward tr)
           (features (DenseNet_init g [n1, n2, n3, n4] m bn dr nc)) [N, 3, H, W] = Inr z \<longleftrightarrow>
         1 \<le> H \<and> 1 \<le> W \<and> \<not> (tr \<and> N * ((H - 1) div 2 + 1) * ((W - 1) div 2 + 1) = 1) \<and>
         2 \<le> (H - 1) div 4 + 1 \<and> 2 \<le> (W - 1) div 4 + 1 \<and>
         2 \<le> ((H - 1) div 4 + 1) div 2 \<and> 2 \<le> ((W - 1) div 4 + 1) div 2 \<and>
         2 \<le> ((H - 1) div 4 + 1) div 2 div 2 \<and> 2 \<le> ((W - 1) div 4 + 1) div 2 div 2 \<and>
         (n4 = 0 \<or> 1 \<le> ((H - 1) div 4 + 1) div 2 div 2 div 2 \<and> 1 \<le> ((W - 1) div 4 + 1) div 2 div 2 div 2) \<and>
         \<not> (tr \<and> N * (((H - 1) div 4 + 1) div 2 div 2 div 2) * (((W - 1) div 4 + 1) div 2 div 2 div 2) = 1) \<and>
         z = [N, final_features g m [n1, n2, n3, n4],
              ((H - 1) div 4 + 1) div 2 div 2 div 2, ((W - 1) div 4 + 1) div 2 div 2 div 2]"
  unfolding DenseNet_init_explicit
  apply (simp only: DenseNet.simps stage_children.simps list.simps if_False if_True simp_thms
           append_Cons append_Nil stem_forward[OF m] final_features.simps)
  apply (simp only: stage_forward[OF N n(1) dr m g bn c1] stage_forward[OF N n(2) dr c1 g bn c2]
           stage_forward[OF N n(3) dr c2 g bn c3] last_stage_forward[OF n(4) dr c3 g bn])
  done

lemma list4: "length xs = 4 \<Longrightarrow> \<exists>a b c d. xs = [a, b, c, d]"
  by (auto simp: length_Suc_conv numeral_eq_Suc)

lemma forward_4stage_iff:
  assumes len: "length block_config = 4"
    and nonneg: "\<forall>n\<in>set block_config. 0 \<le> n"
    and N: "0 < N" and dr: "dr \<le> 1"
    and g: "0 < g" and bn: "0 < bn" and nc: "0 < nc"
    and pos: "\<forall>i<length block_config. 0 < stage_in g m block_config i"
  shows "DenseNet_forward tr (DenseNet_init g block_config m bn dr nc) [N, 3, H, W] = Inr y \<longleftrightarrow>
           221 \<le> H \<and> H \<le> 444 \<and> 221 \<le> W \<and> W \<le> 444 \<and> y = [N, nc]"
proof -
  from list4[OF len] obtain n1 n2 n3 n4 where bc: "block_config = [n1, n2, n3, n4]" by blast
  with nonneg have n: "0 \<le> n1" "0 \<le> n2" "0 \<le> n3" "0 \<le> n4" by simp_all
  have m: "0 < m" using pos[rule_format, of 0] bc by simp
  have c1: "0 < (m + n1 * g) div 2" using pos[rule_format, of "Suc 0"] bc by simp
  have c2: "0 < ((m + n1 * g) div 2 + n2 * g) div 2"
    using pos[rule_format, of "Suc (Suc 0)"] bc by simp
  have c3: "0 < (((m + n1 * g) div 2 + n2 * g) div 2 + n3 * g) div 2"
    using pos[rule_format, of "Suc (Suc (Suc 0))"] bc by simp
  define C where "C = final_features g m [n1, n2, n3, n4]"
  define h where "h = ((H - 1) div 4 + 1) div 2 div 2 div 2"
  define w where "w = ((W - 1) div 4 + 1) div 2 div 2 div 2"
  have cls: "classifier (DenseNet_init g block_config m bn dr nc) = Linear C nc"
    unfolding bc C_def DenseNet_init_explicit by simp
  have C: "0 < C" unfolding C_def using stage_out_pos[OF c3 n(4) g] by simp
  note F = features_4stage[OF N n dr g bn m c1 c2 c3, where tr = tr and nc = nc
      and H = H and W = W, folded C_def h_def w_def]
  note hd = head_forward[OF N C nc, where h = h and w = w and y = y]
  have fw: "DenseNet_forward tr (DenseNet_init g block_config m bn dr nc) [N, 3, H, W] = Inr y \<longleftrightarrow>
      (\<exists>z. Sequential_forward (child_forward tr)
             (features (DenseNet_init g [n1, n2, n3, n4] m bn dr nc)) [N, 3, H, W] = Inr z \<and>
           (case F_avg_pool2d (F_relu z) 7 of
             Inl e \<Rightarrow> Inl e
           | Inr out \<Rightarrow>
               (case size0 z of
                  Inl e \<Rightarrow> Inl e
                | Inr n \<Rightarrow>
                    (case view_flat out n of
                       Inl e \<Rightarrow> Inl e
                     | Inr out \<Rightarrow> Linear_forward (Linear C nc) out))) = Inr y)"
    unfolding DenseNet_forward_def forward_case_iff cls[unfolded bc] bc ..
  note rH = spatial_range[of H, folded h_def]
  note rW = spatial_range[of W, folded w_def]
  show ?thesis
  proof
    assume "DenseNet_forward tr (DenseNet_init g block_config m bn dr nc) [N, 3, H, W] = Inr y"
    then obtain z where z: "Sequential_forward (child_forward tr)
             (features (DenseNet_init g [n1, n2, n3, n4] m bn dr nc)) [N, 3, H, W] = Inr z"
      and hz: "(case F_avg_pool2d (F_relu z) 7 of
             Inl e \<Rightarrow> Inl e
           | Inr out \<Rightarrow>
               (case size0 z of
                  Inl e \<Rightarrow> Inl e
                | Inr n \<Rightarrow>
                    (case view_flat out n of
                       Inl e \<Rightarrow> Inl e
                     | Inr out \<Rightarrow> Linear_forward (Linear C nc) out))) = Inr y"
      unfolding fw by blast
    from z[unfolded F] have zz: "z = [N, C, h, w]" by blast
    from hz[unfolded zz] hd have k: "7 \<le> h" "h < 14" "7 \<le> w" "w < 14" "y = [N, nc]" by blast+
    from z[unfolded F] k rH rW show "221 \<le> H \<and> H \<le> 444 \<and> 221 \<le> W \<and> W \<le> 444 \<and> y = [N, nc]"
      by blast
  next
    assume a: "221 \<le> H \<and> H \<le> 444 \<and> 221 \<le> W \<and> W \<le> 444 \<and> y = [N, nc]"
    then have H: "1 \<le> H \<and> 2 \<le> (H - 1) div 4 + 1 \<and> 2 \<le> ((H - 1) div 4 + 1) div 2
       \<and> 2 \<le> ((H - 1) div 4 + 1) div 2 div 2 \<and> 7 \<le> h \<and> h < 14"
      and W: "1 \<le> W \<and> 2 \<le> (W - 1) div 4 + 1 \<and> 2 \<le> ((W - 1) div 4 + 1) div 2
       \<and> 2 \<le> ((W - 1) div 4 + 1) div 2 div 2 \<and> 7 \<le> w \<and> w < 14"
      using rH rW by blast+
    from a have lo: "221 \<le> H" "221 \<le> W" by simp_all
    have h1: "2 \<le> (H - 1) div 2 + 1" "1 \<le> (W - 1) div 2 + 1" using lo by presburger+
    have b1: "N * ((H - 1) div 2 + 1) * ((W - 1) div 2 + 1) \<noteq> 1" by (rule prod_ne_1[OF N h1])
    have b5: "N * h * w \<noteq> 1" by (rule prod_ne_1[OF N]) (use H W in simp_all)
    have "Sequential_forward (child_forward tr)
             (features (DenseNet_init g [n1, n2, n3, n4] m bn dr nc)) [N, 3, H, W] = Inr [N, C, h, w]"
      unfolding F using H W b1 b5 by simp
    moreover have "(case F_avg_pool2d (F_relu [N, C, h, w]) 7 of
             Inl e \<Rightarrow> Inl e
           | Inr out \<Rightarrow>
               (case size0 [N, C, h, w] of
                  Inl e \<Rightarrow> Inl e
                | Inr n \<Rightarrow>
                    (case view_flat out n of
                       Inl e \<Rightarrow> Inl e
                     | Inr out \<Rightarrow> Linear_forward (Linear C nc) out))) = Inr y"
      using hd H W a by blast
    ultimately show "DenseNet_forward tr (DenseNet_init g block_config m bn dr nc) [N, 3, H, W] = Inr y"
      unfolding fw by blast
  qed
qed

subsection \<open>Channel counts from stage to stage\<close>





lemma Transition_forward_any:
  "Transition_forward tr (Transition_init c c2) x = Inr y \<Longrightarrow>
     \<exists>N H W. x = [N, c, H, W] \<and> y = [N, c2, H div 2, W div 2]"
proof -
  assume a: "Transition_forward tr (Transition_init c c2) x = Inr y"
  then obtain N c' H W where x: "x = [N, c', H, W]"
    by (auto simp: Transition_forward_def Transition_modules split: list.splits sum.splits if_splits)
  with a show ?thesis by (simp add: Transition_forward_4)
qed



text \<open>
  Claim C2, as amended. For a four-stage network with non-negative layer counts, a
  dropout rate of at most 1, and a positive growth rate, bottleneck size, class count and
  channel count entering every stage (so that every module of the network has positive
  channel and feature counts), and a batch of \<open>N \<ge> 1\<close> images of size \<open>H \<times> W\<close>: the
  forward pass returns a tensor, and then one of size \<open>(N, num_classes)\<close>, exactly when
  \<open>221 \<le> H \<le> 444\<close> and \<open>221 \<le> W \<le> 444\<close>. Below 221 the final 7-by-7 average pooling
  does not fit; above 444 it leaves more than one position, and the flattened features
  no longer fit the classifier.
\<close>

theorem DenseNet_forward_size:
  assumes "length block_config = 4"
    and "\<forall>n\<in>set block_config. 0 \<le> n"
    and "0 < N" and "dr \<le> 1"
    and "0 < g" and "0 < bn" and "0 < nc"
    and "\<forall>i<length block_config. 0 < stage_in g m block_config i"
  shows "DenseNet_forward tr (DenseNet_init g block_config m bn dr nc) [N, 3, H, W] = Inr y \<longleftrightarrow>
           221 \<le> H \<and> H \<le> 444 \<and> 221 \<le> W \<and> W \<le> 444 \<and> y = [N, nc]"
  using assms by (rule forward_4stage_iff)

theorem DenseNet_forward_size_witness:
  "DenseNet_forward True (DenseNet_init 32 [6, 12, 24, 16] 64 4 0 1000) [4, 3, 224, 224]
     = Inr [4, 1000]"
proof -
  have h1: "length [6, 12, 24, 16 :: int] = 4" by simp
  have h2: "\<forall>n\<in>set [6, 12, 24, 16 :: int]. 0 \<le> n" by simp
  have h3: "(0 :: int) < 4" by simp
  have h4: "(0 :: real) \<le> 1" by simp
  have h5: "(0 :: int) < 32" "(0 :: int) < 4" "(0 :: int) < 1000" by simp_all
  have h6: "\<forall>i<length [6, 12, 24, 16 :: int]. 0 < stage_in 32 64 [6, 12, 24, 16] i"
    by (simp add: All_less_Suc)
  show ?thesis
    using DenseNet_forward_size[OF h1 h2 h3 h4 h5 h6, of True 224 224 "[4, 1000]"] by simp
qed

text \<open>
  The claim as stated fails for a 448-by-448 input to the network that \<^verbatim>\<open>densenet121\<close>
  builds: every convolution and pooling applies (the feature stack returns a 14-by-14 map
  and the 7-by-7 pooling a 2-by-2 map), and the forward pass raises instead of returning
  a tensor of size \<open>(1, 1000)\<close>.
\<close>

theorem DenseNet_forward_size_counterexample:
  "Sequential_forward (child_forward True)
     (features (DenseNet_init 32 [6, 12, 24, 16] 64 4 0 1000)) [1, 3, 448, 448]
     = Inr [1, 1024, 14, 14]
   \<and> F_avg_pool2d (F_relu [1, 1024, 14, 14]) 7 = Inr [1, 1024, 2, 2]
   \<and> DenseNet_forward True (DenseNet_init 32 [6, 12, 24, 16] 64 4 0 1000) [1, 3, 448, 448]
       \<noteq> Inr [1, 1000]"
proof -
  have h1: "length [6, 12, 24, 16 :: int] = 4" by simp
  have h2: "\<forall>n\<in>set [6, 12, 24, 16 :: int]. 0 \<le> n" by simp
  have h3: "(0 :: int) < 1" by simp
  have h4: "(0 :: real) \<le> 1" by simp
  have h5: "(0 :: int) < 32" "(0 :: int) < 4" "(0 :: int) < 1000" by simp_all
  have h6: "\<forall>i<length [6, 12, 24, 16 :: int]. 0 < stage_in 32 64 [6, 12, 24, 16] i"
    by (simp add: All_less_Suc)
  have a: "Sequential_forward (child_forward True)
     (features (DenseNet_init 32 [6, 12, 24, 16] 64 4 0 1000)) [1, 3, 448, 448]
     = Inr [1, 1024, 14, 14]"
    by (simp add: features_4stage)
  have b: "F_avg_pool2d (F_relu [1, 1024, 14, 14]) 7 = Inr [1, 1024, 2, 2]"
    by (simp add: F_avg_pool2d_def F_relu_def window_out_def)
  have c: "DenseNet_forward True (DenseNet_init 32 [6, 12, 24, 16] 64 4 0 1000) [1, 3, 448, 448]
       \<noteq> Inr [1, 1000]"
    using forward_4stage_iff[OF h1 h2 h3 h4 h5 h6, of True 448 448 "[1, 1000]"] by simp
  show ?thesis using a b c by blast
qed

subsection \<open>Transitions and the classifier\<close>

lemma stage_children_transitions:
  "(nm, Trans t) \<in> set (stage_children g bn dr i c ns) \<Longrightarrow> \<exists>c'. t = Transition_init c' (c' div 2)"
proof (induction ns arbitrary: i c)
  case Nil
  then show ?case by simp
next
  case (Cons n ns)
  then show ?case by (cases "ns = []") auto
qed

lemma features_transitions:
  "(nm, Trans t) \<in> set (features (DenseNet_init g ns m bn dr nc)) \<Longrightarrow>
     \<exists>c. t = Transition_init c (c div 2)"
  unfolding DenseNet_init_explicit
  by (auto simp: stem_def dest: stage_children_transitions)

text \<open>
  Claim C5. Whatever input a transition built for \<open>c_in\<close> input and \<open>c_out\<close> output
  channels accepts has \<open>c_in\<close> channels, and the output has \<open>c_out\<close> channels and half the
  height and width, rounded down; every transition in a network that
  \<^verbatim>\<open>DenseNet.__init__\<close> builds has half as many output as input channels, rounded down.
\<close>

theorem Transition_halves:
  "(\<forall>x y. Transition_forward tr (Transition_init c_in c_out) x = Inr y \<longrightarrow>
       (\<exists>N H W. x = [N, c_in, H, W] \<and> y = [N, c_out, H div 2, W div 2]))
   \<and> (\<forall>nm t. (nm, Trans t) \<in> set (features (DenseNet_init g block_config m bn dr nc)) \<longrightarrow>
       (\<exists>c. t = Transition_init c (c div 2)))"
  using Transition_forward_any features_transitions by blast

theorem Transition_halves_witness:
  "Transition_forward True (Transition_init 64 5) [2, 64, 57, 56] = Inr [2, 5, 28, 28]
   \<and> (''transition1'', Trans (Transition_init 256 128))
       \<in> set (features (DenseNet_init 32 [6, 12, 24, 16] 64 4 0 1000))
   \<and> (\<exists>c. Transition_init 256 128 = Transition_init c (c div 2))"
proof -
  have a: "Transition_forward True (Transition_init 64 5) [2, 64, 57, 56] = Inr [2, 5, 28, 28]"
    by (simp add: Transition_forward_4)
  have f: "format_d 1 = ''1''" by (simp add: format_d_def)
  have b: "(''transition1'', Trans (Transition_init 256 128))
       \<in> set (features (DenseNet_init 32 [6, 12, 24, 16] 64 4 0 1000))"
    by (simp add: DenseNet_init_explicit f)
  show ?thesis
    using a b Transition_halves[of True 64 5 32 "[6, 12, 24, 16]" 64 4 0 1000] by blast
qed

lemma DenseNet_forward_out:
  "DenseNet_forward tr self x = Inr y \<Longrightarrow> \<exists>N. y = [N, out_features (classifier self)]"
  by (auto simp: DenseNet_forward_def view_flat_def Linear_forward_def
           split: sum.splits if_splits)

lemma classifier_out_features:
  "out_features (classifier (DenseNet_init g ns m bn dr nc)) = nc"
  by (simp add: DenseNet_init_explicit)

text \<open>
  Claim C6. The classifier of a network configured with \<open>num_classes\<close> classes is a
  linear layer with that many output features, and whenever the forward pass returns, the
  result has size \<open>(N, num_classes)\<close>; for any network object, the second extent of the
  result is the output feature count of its classifier.
\<close>

theorem DenseNet_logits:
  "out_features (classifier (DenseNet_init g block_config m bn dr num_classes)) = num_classes
   \<and> (\<forall>x y. DenseNet_forward tr (DenseNet_init g block_config m bn dr num_classes) x = Inr y \<longrightarrow>
         (\<exists>N. y = [N, num_classes]))
   \<and> (\<forall>self x y. DenseNet_forward tr self x = Inr y \<longrightarrow>
         (\<exists>N. y = [N, out_features (classifier self)]))"
proof (intro conjI allI impI)
  show "out_features (classifier (DenseNet_init g block_config m bn dr num_classes)) = num_classes"
    by (rule classifier_out_features)
next
  fix x y
  assume "DenseNet_forward tr (DenseNet_init g block_config m bn dr num_classes) x = Inr y"
  from DenseNet_forward_out[OF this] show "\<exists>N. y = [N, num_classes]"
    by (simp add: classifier_out_features)
next
  fix self x y
  assume "DenseNet_forward tr self x = Inr y"
  then show "\<exists>N. y = [N, out_features (classifier self)]" by (rule DenseNet_forward_out)
qed

theorem DenseNet_logits_witness:
  "out_features (classifier (DenseNet_init 2 [1, 2, 1, 1] 8 4 0 10)) = 10
   \<and> DenseNet_forward False (DenseNet_init 2 [1, 2, 1, 1] 8 4 0 10) [1, 3, 224, 224] = Inr [1, 10]
   \<and> (\<exists>N. [1, 10 :: int] = [N, 10])"
proof -
  have h1: "length [1, 2, 1, 1 :: int] = 4" by simp
  have h2: "\<forall>n\<in>set [1, 2, 1, 1 :: int]. 0 \<le> n" by simp
  have h3: "(0 :: int) < 1" by simp
  have h4: "(0 :: real) \<le> 1" by simp
  have h5: "(0 :: int) < 2" "(0 :: int) < 4" "(0 :: int) < 10" by simp_all
  have h6: "\<forall>i<length [1, 2, 1, 1 :: int]. 0 < stage_in 2 8 [1, 2, 1, 1] i"
    by (simp add: All_less_Suc)
  have a: "DenseNet_forward False (DenseNet_init 2 [1, 2, 1, 1] 8 4 0 10) [1, 3, 224, 224] = Inr [1, 10]"
    using forward_4stage_iff[OF h1 h2 h3 h4 h5 h6, of False 224 224 "[1, 10]"] by simp
  show ?thesis
    using a DenseNet_logits[of 2 "[1, 2, 1, 1]" 8 4 0 10 False] by blast
qed

subsection \<open>Concatenation on tensor contents\<close>

lemma DenseLayer_seq_size:
  "Sequential_forward (layer_forward tr) (modules (DenseLayer_init c g bn dr)) s = Inr s' \<Longrightarrow>
     \<exists>N H W. s = [N, c, H, W] \<and> s' = [N, g, H, W] \<and> 1 \<le> H \<and> 1 \<le> W"
  by (auto simp: DenseLayer_modules split: sum.splits list.splits if_splits)

lemma wf_tensor_4:
  "tsize x = [n, c, h, w] \<Longrightarrow>
   wf_tensor x \<longleftrightarrow>
     int (length (elems x)) = n \<and>
     (\<forall>s\<in>set (elems x). int (length s) = c \<and>
        (\<forall>ch\<in>set s. int (length ch) = h \<and> (\<forall>r\<in>set ch. int (length r) = w)))"
  by (simp add: wf_tensor_def list_all_iff)

lemma map2_append_take:
  "length xs = length ys \<Longrightarrow> \<forall>s\<in>set xs. length s = k \<Longrightarrow> map (take k) (map2 (@) xs ys) = xs"
  by (induction xs ys rule: list_induct2) auto

lemma map2_append_drop:
  "length xs = length ys \<Longrightarrow> \<forall>s\<in>set xs. length s = k \<Longrightarrow> map (drop k) (map2 (@) xs ys) = ys"
  by (induction xs ys rule: list_induct2) auto

lemma set_map2_append:
  "length xs = length ys \<Longrightarrow> s \<in> set (map2 (@) xs ys) \<Longrightarrow>
     \<exists>a\<in>set xs. \<exists>b\<in>set ys. s = a @ b"
  by (induction xs ys rule: list_induct2) auto

lemma torch_cat1_t_4:
  assumes wx: "wf_tensor x" and wy: "wf_tensor y"
    and sx: "tsize x = [N, C, H, W]" and sy: "tsize y = [N, G, H, W]"
  shows "\<exists>out. torch_cat1_t x y = Inr out \<and> tsize out = [N, C + G, H, W] \<and> wf_tensor out
           \<and> map (take (nat C)) (elems out) = elems x \<and> map (drop (nat C)) (elems out) = elems y"
proof -
  let ?out = "\<lparr> tsize = [N, C + G, H, W], elems = map2 (@) (elems x) (elems y) \<rparr>"
  have c: "torch_cat1_t x y = Inr ?out" by (simp add: torch_cat1_t_def sx sy)
  from wx sx have lx: "int (length (elems x)) = N"
    and ex: "\<forall>s\<in>set (elems x). int (length s) = C \<and>
        (\<forall>ch\<in>set s. int (length ch) = H \<and> (\<forall>r\<in>set ch. int (length r) = W))"
    by (simp_all add: wf_tensor_4)
  from wy sy have ly: "int (length (elems y)) = N"
    and ey: "\<forall>s\<in>set (elems y). int (length s) = G \<and>
        (\<forall>ch\<in>set s. int (length ch) = H \<and> (\<forall>r\<in>set ch. int (length r) = W))"
    by (simp_all add: wf_tensor_4)
  have len: "length (elems x) = length (elems y)" using lx ly by simp
  have k: "\<forall>s\<in>set (elems x). length s = nat C" using ex by auto
  have w: "wf_tensor ?out"
  proof -
    have "int (length (map2 (@) (elems x) (elems y))) = N" using len lx by simp
    moreover have "\<forall>s\<in>set (map2 (@) (elems x) (elems y)). int (length s) = C + G \<and>
        (\<forall>ch\<in>set s. int (length ch) = H \<and> (\<forall>r\<in>set ch. int (length r) = W))"
    proof
      fix s assume "s \<in> set (map2 (@) (elems x) (elems y))"
      from set_map2_append[OF len this] obtain a b where
        "a \<in> set (elems x)" "b \<in> set (elems y)" "s = a @ b" by blast
      with ex ey show "int (length s) = C + G \<and>
        (\<forall>ch\<in>set s. int (length ch) = H \<and> (\<forall>r\<in>set ch. int (length r) = W))"
        by auto
    qed
    ultimately show ?thesis by (simp add: wf_tensor_4)
  qed
  have "torch_cat1_t x y = Inr ?out \<and> tsize ?out = [N, C + G, H, W] \<and> wf_tensor ?out
           \<and> map (take (nat C)) (elems ?out) = elems x \<and> map (drop (nat C)) (elems ?out) = elems y"
    using c w map2_append_take[OF len k] map2_append_drop[OF len k] by simp
  then show ?thesis by (rule exI)
qed

lemma DenseLayer_forward_t_accepted:
  assumes lib: "lib_respects_sizes seq dropout tr" and wx: "wf_tensor x"
    and run: "DenseLayer_forward_t seq dropout tr (DenseLayer_init C g bn dr) x = Inr out"
  shows "\<exists>N H W nf. tsize x = [N, C, H, W] \<and> wf_tensor nf \<and> tsize nf = [N, g, H, W]
           \<and> torch_cat1_t x nf = Inr out \<and> tsize out = [N, C + g, H, W] \<and> wf_tensor out
           \<and> map (take (nat C)) (elems out) = elems x
           \<and> map (drop (nat C)) (elems out) = elems nf
           \<and> DenseLayer_forward tr (DenseLayer_init C g bn dr) (tsize x) = Inr (tsize out)"
proof -
  let ?self = "DenseLayer_init C g bn dr"
  from run obtain nf0 where s0: "seq (modules ?self) tr x = Inr nf0"
    by (auto simp: DenseLayer_forward_t_def split: sum.splits)
  from lib wx s0 have w0: "wf_tensor nf0"
    and z0: "Sequential_forward (layer_forward tr) (modules ?self) (tsize x) = Inr (tsize nf0)"
    unfolding lib_respects_sizes_def by blast+
  from DenseLayer_seq_size[OF z0] obtain N H W where
    sx: "tsize x = [N, C, H, W]" and s0': "tsize nf0 = [N, g, H, W]" by blast
  from run s0 obtain nf where
    d: "(if drop_rate ?self > 0 then dropout nf0 (drop_rate ?self) tr else Inr nf0) = Inr nf"
    and c: "torch_cat1_t x nf = Inr out"
    by (auto simp: DenseLayer_forward_t_def split: sum.splits)
  have wn: "wf_tensor nf \<and> tsize nf = tsize nf0
        \<and> (if drop_rate ?self > 0 then F_dropout (tsize nf0) (drop_rate ?self) tr
            else Inr (tsize nf0)) = Inr (tsize nf)"
  proof (cases "drop_rate ?self > 0")
    case True
    with d have "dropout nf0 (drop_rate ?self) tr = Inr nf" by simp
    with lib w0 have "wf_tensor nf" "F_dropout (tsize nf0) (drop_rate ?self) tr = Inr (tsize nf)"
      unfolding lib_respects_sizes_def by blast+
    then show ?thesis using True by (auto simp: F_dropout_def split: if_splits)
  next
    case False
    with d w0 show ?thesis by simp
  qed
  then have sn: "tsize nf = [N, g, H, W]" using s0' by simp
  from torch_cat1_t_4[OF wx _ sx sn] wn c obtain
    so: "tsize out = [N, C + g, H, W]" and wo: "wf_tensor out"
    and tk: "map (take (nat C)) (elems out) = elems x"
    and dp: "map (drop (nat C)) (elems out) = elems nf" by auto
  from wn have dz: "(if drop_rate ?self > 0 then F_dropout (tsize nf0) (drop_rate ?self) tr
            else Inr (tsize nf0)) = Inr (tsize nf)" by blast
  have cz: "torch_cat1 (tsize x) (tsize nf) = Inr (tsize out)"
    unfolding sx sn so by simp
  have sz: "DenseLayer_forward tr ?self (tsize x) = Inr (tsize out)"
    unfolding DenseLayer_forward_def z0 sum.case dz cz ..
  from wn have wnf: "wf_tensor nf" by blast
  have "tsize x = [N, C, H, W] \<and> wf_tensor nf \<and> tsize nf = [N, g, H, W]
           \<and> torch_cat1_t x nf = Inr out \<and> tsize out = [N, C + g, H, W] \<and> wf_tensor out
           \<and> map (take (nat C)) (elems out) = elems x
           \<and> map (drop (nat C)) (elems out) = elems nf
           \<and> DenseLayer_forward tr (DenseLayer_init C g bn dr) (tsize x) = Inr (tsize out)"
    using sx wnf sn c so wo tk dp sz by simp
  then show ?thesis by blast
qed

lemma prefix_canon:
  assumes "map (take a) ys = xs" and "\<forall>s\<in>set xs. length s = n"
  shows "map (take n) ys = xs"
proof -
  have "\<forall>s\<in>set ys. take n s = take a s"
  proof
    fix s assume s: "s \<in> set ys"
    then have "take a s \<in> set xs" using assms(1) by auto
    then have "length (take a s) = n" using assms(2) by blast
    then have "n = min (length s) a" by simp
    then show "take n s = take a s" by (simp add: min_def split: if_splits)
  qed
  then have "map (take n) ys = map (take a) ys" by simp
  with assms(1) show ?thesis by simp
qed

lemma wf_samples:
  "wf_tensor x \<Longrightarrow> tsize x = [N, C, H, W] \<Longrightarrow> \<forall>s\<in>set (elems x). length s = nat C"
  by (auto simp: wf_tensor_4)

lemma Sequential_forward_prefix:
  "Sequential_forward f ms x = Inr y \<Longrightarrow> \<exists>z. Sequential_forward f (take i ms) x = Inr z"
proof -
  assume "Sequential_forward f ms x = Inr y"
  then have "Sequential_forward f (take i ms @ drop i ms) x = Inr y" by simp
  then show ?thesis unfolding Sequential_forward_append_iff by blast
qed

lemma block_prefix_forward_t:
  assumes lib: "lib_respects_sizes seq dropout tr" and wx: "wf_tensor x"
    and sx: "tsize x = [N, c, H, W]"
  shows "Sequential_forward (DenseLayer_forward_t seq dropout tr)
           (map (nth_layer c bn g dr) [0..<k]) x = Inr xk \<Longrightarrow>
         (\<forall>j\<le>k. \<exists>xj. Sequential_forward (DenseLayer_forward_t seq dropout tr)
                          (map (nth_layer c bn g dr) [0..<j]) x = Inr xj \<and>
                        wf_tensor xj \<and> tsize xj = [N, c + int j * g, H, W] \<and>
                        map (take (nat (c + int j * g))) (elems xk) = elems xj)"
proof (induction k arbitrary: xk)
  case 0
  then have e: "xk = x" by simp
  have "map (take (nat c)) (elems x) = elems x"
    using wf_samples[OF wx sx] by (simp add: map_idI)
  with e wx sx show ?case by simp
next
  case (Suc k)
  let ?f = "DenseLayer_forward_t seq dropout tr"
  let ?ms = "\<lambda>j. map (nth_layer c bn g dr) [0..<j]"
  have sn: "snd (nth_layer c bn g dr k) = DenseLayer_init (c + int k * g) g bn dr"
    by (simp add: nth_layer_def)
  from Suc.prems[unfolded upt_Suc_append[OF le0] map_append list.map Sequential_forward_snoc sn]
  obtain z where z: "Sequential_forward ?f (?ms k) x = Inr z"
    and step: "?f (DenseLayer_init (c + int k * g) g bn dr) z = Inr xk"
    by blast
  note pz = Suc.IH[OF z]
  from pz[rule_format, of k] z have wz: "wf_tensor z" and sz: "tsize z = [N, c + int k * g, H, W]"
    by auto
  from DenseLayer_forward_t_accepted[OF lib wz step] sz
  have wk: "wf_tensor xk" and sk: "tsize xk = [N, c + int k * g + g, H, W]"
    and tk: "map (take (nat (c + int k * g))) (elems xk) = elems z"
    by auto
  have a: "c + int k * g + g = c + int (Suc k) * g" by (simp add: algebra_simps)
  show ?case
  proof (intro allI impI)
    fix j assume j: "j \<le> Suc k"
    show "\<exists>xj. Sequential_forward ?f (?ms j) x = Inr xj \<and>
                wf_tensor xj \<and> tsize xj = [N, c + int j * g, H, W] \<and>
                map (take (nat (c + int j * g))) (elems xk) = elems xj"
    proof (cases "j = Suc k")
      case True
      have "map (take (nat (c + int (Suc k) * g))) (elems xk) = elems xk"
        using wf_samples[OF wk sk[unfolded a]] by (simp add: map_idI)
      with True Suc.prems wk sk[unfolded a] show ?thesis by blast
    next
      case False
      with j have jk: "j \<le> k" by simp
      with pz obtain xj where xj: "Sequential_forward ?f (?ms j) x = Inr xj"
        and wj: "wf_tensor xj" and sj: "tsize xj = [N, c + int j * g, H, W]"
        and tj: "map (take (nat (c + int j * g))) (elems z) = elems xj" by blast
      have "map (take (min (nat (c + int j * g)) (nat (c + int k * g)))) (elems xk) = elems xj"
        using tj tk[symmetric] by (simp add: take_map[symmetric] o_def)
      from prefix_canon[OF this wf_samples[OF wj sj]]
      have "map (take (nat (c + int j * g))) (elems xk) = elems xj" .
      with xj wj sj show ?thesis by blast
    qed
  qed
qed

lemma take_DenseBlock:
  "i \<le> nat L \<Longrightarrow> take i (DenseBlock_init L c bn g dr) = map (nth_layer c bn g dr) [0..<i]"
  by (simp add: DenseBlock_layers take_map min_def)

lemma DenseBlock_forward_t_sees_all:
  assumes lib: "lib_respects_sizes seq dropout tr" and wx: "wf_tensor x"
    and sx: "tsize x = [N, c, H, W]"
    and run: "DenseBlock_forward_t seq dropout tr (DenseBlock_init L c bn g dr) x = Inr out"
    and ji: "j \<le> i" and iL: "i \<le> nat L"
  shows "\<exists>xi xj.
           Sequential_forward (DenseLayer_forward_t seq dropout tr)
             (take i (DenseBlock_init L c bn g dr)) x = Inr xi \<and>
           Sequential_forward (DenseLayer_forward_t seq dropout tr)
             (take j (DenseBlock_init L c bn g dr)) x = Inr xj \<and>
           tsize xi = [N, c + int i * g, H, W] \<and>
           map (take (nat (c + int j * g))) (elems xi) = elems xj"
proof -
  from run Sequential_forward_prefix[of _ "DenseBlock_init L c bn g dr" x out i]
  obtain xi where xi: "Sequential_forward (DenseLayer_forward_t seq dropout tr)
             (take i (DenseBlock_init L c bn g dr)) x = Inr xi"
    unfolding DenseBlock_forward_t_def by blast
  have jL: "j \<le> nat L" using ji iL by simp
  from block_prefix_forward_t[OF lib wx sx xi[unfolded take_DenseBlock[OF iL]], rule_format, OF ji]
    block_prefix_forward_t[OF lib wx sx xi[unfolded take_DenseBlock[OF iL]], rule_format, of i]
  show ?thesis
    unfolding take_DenseBlock[OF iL] take_DenseBlock[OF jL] using xi[unfolded take_DenseBlock[OF iL]]
    by auto
qed

lemma lib_const: "lib_respects_sizes (const_seq v) keep_all tr"
  unfolding lib_respects_sizes_def
  by (auto simp: const_seq_def keep_all_def fill_def F_dropout_def split: sum.splits if_splits)

text \<open>
  Claim C3. Whenever a dense layer built for \<open>C\<close> input channels and growth rate \<open>g\<close>
  accepts a tensor \<open>x\<close>, then \<open>x\<close> has \<open>C\<close> channels and the result is the concatenation
  along the channel dimension of \<open>x\<close> with new features of \<open>g\<close> channels: it has
  \<open>C + g\<close> channels, its first \<open>C\<close> channels are \<open>x\<close>, the remaining ones are the new
  features.
\<close>

theorem DenseLayer_concat:
  assumes "lib_respects_sizes seq dropout tr" and "wf_tensor x"
    and "DenseLayer_forward_t seq dropout tr (DenseLayer_init C g bn dr) x = Inr out"
  shows "\<exists>N H W new_features.
           tsize x = [N, C, H, W] \<and> wf_tensor new_features \<and> tsize new_features = [N, g, H, W]
           \<and> torch_cat1_t x new_features = Inr out \<and> tsize out = [N, C + g, H, W] \<and> wf_tensor out
           \<and> map (take (nat C)) (elems out) = elems x
           \<and> map (drop (nat C)) (elems out) = elems new_features
           \<and> DenseLayer_forward tr (DenseLayer_init C g bn dr) (tsize x) = Inr (tsize out)"
  using assms by (rule DenseLayer_forward_t_accepted)

lemma dl_eval:
  "DenseLayer_forward_t (const_seq 0) keep_all True (DenseLayer_init 1 2 3 (1/2))
       \<lparr> tsize = [1, 1, 1, 2], elems = [[[[5, 7 :: int]]]] \<rparr>
     = Inr \<lparr> tsize = [1, 3, 1, 2], elems = [[[[5, 7]], [[0, 0]], [[0, 0]]]] \<rparr>"
  by (simp add: DenseLayer_forward_t_def const_seq_def keep_all_def DenseLayer_modules
        DenseLayer_drop_rate F_dropout_def fill_def wf_tensor_def torch_cat1_t_def
        numeral_eq_Suc)

theorem DenseLayer_concat_witness:
  "DenseLayer_forward_t (const_seq 0) keep_all True (DenseLayer_init 1 2 3 (1/2))
       \<lparr> tsize = [1, 1, 1, 2], elems = [[[[5, 7 :: int]]]] \<rparr>
     = Inr \<lparr> tsize = [1, 3, 1, 2], elems = [[[[5, 7]], [[0, 0]], [[0, 0]]]] \<rparr>
   \<and> map (take (nat 1)) [[[[5, 7 :: int]], [[0, 0]], [[0, 0]]]] = [[[[5, 7]]]]"
proof -
  have w: "wf_tensor \<lparr> tsize = [1, 1, 1, 2], elems = [[[[5, 7 :: int]]]] \<rparr>"
    by (simp add: wf_tensor_def)
  from DenseLayer_concat[OF lib_const w dl_eval] dl_eval
  show ?thesis by auto
qed

subsection \<open>Dense blocks\<close>

lemma DenseBlock_nth:
  "i < nat L \<Longrightarrow> DenseBlock_init L c bn g dr ! i =
     (''denselayer'' @ format_d (int i + 1), DenseLayer_init (c + int i * g) g bn dr)"
  by (simp add: DenseBlock_layers nth_layer_def)

lemma DenseBlock_length: "length (DenseBlock_init L c bn g dr) = nat L"
  by (simp add: DenseBlock_layers)

lemma DenseBlock_prefix_size:
  assumes "i \<le> nat L"
    and "Sequential_forward (DenseLayer_forward tr) (take i (DenseBlock_init L c bn g dr))
           [N, c, H, W] = Inr y"
  shows "y = [N, c + int i * g, H, W]"
  using assms(2) unfolding take_DenseBlock[OF assms(1)] block_prefix_forward by auto

text \<open>
  Claim C4. A dense block built with \<open>L \<ge> 0\<close> layers, \<open>c0\<close> input channels and growth
  rate \<open>g\<close> has \<open>L\<close> layers, the \<open>i\<close>-th (counted from 0) built for \<open>c0 + i * g\<close> input
  channels; the first \<open>i\<close> layers turn \<open>c0\<close> channels into \<open>c0 + i * g\<close>, so the block
  returns \<open>c0 + L * g\<close> channels; and on contents, the tensor entering layer \<open>i\<close> starts
  with the tensor that entered any earlier layer \<open>j\<close>, so with the block input and, by
  C3, with the new features of every layer before it.
\<close>

theorem DenseBlock_dense_connectivity:
  assumes "0 \<le> L"
  shows "length (DenseBlock_init L c0 bn g dr) = nat L
   \<and> (\<forall>i<nat L. DenseBlock_init L c0 bn g dr ! i =
         (''denselayer'' @ format_d (int i + 1), DenseLayer_init (c0 + int i * g) g bn dr))
   \<and> (\<forall>i\<le>nat L. \<forall>N H W y.
         Sequential_forward (DenseLayer_forward tr) (take i (DenseBlock_init L c0 bn g dr))
           [N, c0, H, W] = Inr y \<longrightarrow> y = [N, c0 + int i * g, H, W])
   \<and> (\<forall>N H W y. DenseBlock_forward tr (DenseBlock_init L c0 bn g dr) [N, c0, H, W] = Inr y \<longrightarrow>
         y = [N, c0 + L * g, H, W])
   \<and> (\<forall>seq dropout (x :: 'a tensor) out N H W i j.
         lib_respects_sizes seq dropout tr \<longrightarrow> wf_tensor x \<longrightarrow> tsize x = [N, c0, H, W] \<longrightarrow>
         DenseBlock_forward_t seq dropout tr (DenseBlock_init L c0 bn g dr) x = Inr out \<longrightarrow>
         j \<le> i \<longrightarrow> i \<le> nat L \<longrightarrow>
         (\<exists>xi xj.
            Sequential_forward (DenseLayer_forward_t seq dropout tr)
              (take i (DenseBlock_init L c0 bn g dr)) x = Inr xi \<and>
            Sequential_forward (DenseLayer_forward_t seq dropout tr)
              (take j (DenseBlock_init L c0 bn g dr)) x = Inr xj \<and>
            tsize xi = [N, c0 + int i * g, H, W] \<and>
            map (take (nat (c0 + int j * g))) (elems xi) = elems xj))"
proof (intro conjI allI impI)
  show "length (DenseBlock_init L c0 bn g dr) = nat L" by (rule DenseBlock_length)
next
  fix i assume "i < nat L"
  then show "DenseBlock_init L c0 bn g dr ! i =
         (''denselayer'' @ format_d (int i + 1), DenseLayer_init (c0 + int i * g) g bn dr)"
    by (rule DenseBlock_nth)
next
  fix i N H W y
  assume "i \<le> nat L"
    and "Sequential_forward (DenseLayer_forward tr) (take i (DenseBlock_init L c0 bn g dr))
           [N, c0, H, W] = Inr y"
  then show "y = [N, c0 + int i * g, H, W]" by (rule DenseBlock_prefix_size)
next
  fix N H W y
  assume "DenseBlock_forward tr (DenseBlock_init L c0 bn g dr) [N, c0, H, W] = Inr y"
  with assms show "y = [N, c0 + L * g, H, W]" by (simp add: DenseBlock_forward_nonneg)
next
  fix seq dropout and x :: "'a tensor" and out N H W i j
  assume "lib_respects_sizes seq dropout tr" "wf_tensor x" "tsize x = [N, c0, H, W]"
    "DenseBlock_forward_t seq dropout tr (DenseBlock_init L c0 bn g dr) x = Inr out"
    "j \<le> i" "i \<le> nat L"
  then show "\<exists>xi xj.
            Sequential_forward (DenseLayer_forward_t seq dropout tr)
              (take i (DenseBlock_init L c0 bn g dr)) x = Inr xi \<and>
            Sequential_forward (DenseLayer_forward_t seq dropout tr)
              (take j (DenseBlock_init L c0 bn g dr)) x = Inr xj \<and>
            tsize xi = [N, c0 + int i * g, H, W] \<and>
            map (take (nat (c0 + int j * g))) (elems xi) = elems xj"
    by (rule DenseBlock_forward_t_sees_all)
qed

lemma db_layers:
  "DenseBlock_init 2 1 3 2 0 =
     [(''denselayer1'', DenseLayer_init 1 2 3 0), (''denselayer2'', DenseLayer_init 3 2 3 0)]"
  by (simp add: DenseBlock_layers nth_layer_def format_d_def numeral_2_eq_2)

lemma db_eval:
  "DenseBlock_forward_t (const_seq 0) keep_all True (DenseBlock_init 2 1 3 2 0)
       \<lparr> tsize = [1, 1, 1, 2], elems = [[[[5, 7 :: int]]]] \<rparr>
     = Inr \<lparr> tsize = [1, 5, 1, 2],
             elems = [[[[5, 7]], [[0, 0]], [[0, 0]], [[0, 0]], [[0, 0]]]] \<rparr>"
  unfolding db_layers
  by (simp add: DenseBlock_forward_t_def DenseLayer_forward_t_def const_seq_def keep_all_def
        DenseLayer_modules DenseLayer_drop_rate F_dropout_def fill_def wf_tensor_def
        torch_cat1_t_def numeral_eq_Suc)

lemma db_eval1:
  "Sequential_forward (DenseLayer_forward_t (const_seq 0) keep_all True)
       (take 1 (DenseBlock_init 2 1 3 2 0))
       \<lparr> tsize = [1, 1, 1, 2], elems = [[[[5, 7 :: int]]]] \<rparr>
     = Inr \<lparr> tsize = [1, 3, 1, 2], elems = [[[[5, 7]], [[0, 0]], [[0, 0]]]] \<rparr>"
  unfolding db_layers
  by (simp add: DenseLayer_forward_t_def const_seq_def keep_all_def
        DenseLayer_modules DenseLayer_drop_rate F_dropout_def fill_def wf_tensor_def
        torch_cat1_t_def numeral_eq_Suc)

theorem DenseBlock_dense_connectivity_witness:
  "DenseBlock_init 2 1 3 2 0 ! 1 = (''denselayer2'', DenseLayer_init 3 2 3 0)
   \<and> DenseBlock_forward True (DenseBlock_init 2 1 3 2 0) [1, 1, 1, 2] = Inr [1, 5, 1, 2]
   \<and> DenseBlock_forward_t (const_seq 0) keep_all True (DenseBlock_init 2 1 3 2 0)
       \<lparr> tsize = [1, 1, 1, 2], elems = [[[[5, 7 :: int]]]] \<rparr>
     = Inr \<lparr> tsize = [1, 5, 1, 2],
             elems = [[[[5, 7]], [[0, 0]], [[0, 0]], [[0, 0]], [[0, 0]]]] \<rparr>
   \<and> map (take (nat (1 + int 1 * 2))) [[[[5, 7 :: int]], [[0, 0]], [[0, 0]], [[0, 0]], [[0, 0]]]]
       = [[[[5, 7]], [[0, 0]], [[0, 0]]]]"
proof -
  have L: "(0 :: int) \<le> 2" by simp
  have w: "wf_tensor \<lparr> tsize = [1, 1, 1, 2], elems = [[[[5, 7 :: int]]]] \<rparr>"
    by (simp add: wf_tensor_def)
  have s: "tsize \<lparr> tsize = [1, 1, 1, 2], elems = [[[[5, 7 :: int]]]] \<rparr> = [1, 1, 1, 2]" by simp
  have a: "DenseBlock_forward True (DenseBlock_init 2 1 3 2 0) [1, 1, 1, 2] = Inr [1, 5, 1, 2]"
    by (simp add: DenseBlock_forward_nonneg)
  have i: "(1 :: nat) \<le> 2" "(2 :: nat) \<le> nat 2" by simp_all
  note t = DenseBlock_dense_connectivity[OF L, of 1 3 2 0 True]
  have i1: "(1 :: nat) < nat 2" by simp
  from t[THEN conjunct2, THEN conjunct1, rule_format, OF i1]
  have n: "DenseBlock_init 2 1 3 2 0 ! 1 = (''denselayer2'', DenseLayer_init 3 2 3 0)"
    by (simp add: format_d_def)
  from t[THEN conjunct2, THEN conjunct2, THEN conjunct2, THEN conjunct2, rule_format,
         OF lib_const w s db_eval i]
  have p: "map (take (nat (1 + int 1 * 2)))
            [[[[5, 7 :: int]], [[0, 0]], [[0, 0]], [[0, 0]], [[0, 0]]]]
       = [[[[5, 7]], [[0, 0]], [[0, 0]]]]"
    using db_eval[unfolded DenseBlock_forward_t_def] db_eval1 by simp
  show ?thesis using n a db_eval p by blast
qed

subsection \<open>The densenet121 constructor and the visualisation\<close>

text \<open>
  Claim C9. \<^verbatim>\<open>densenet121\<close> does the same whatever extra keyword arguments it is given;
  the network it returns is the one built from 64 initial features, growth rate 32,
  layer counts (6, 12, 24, 16) and the defaults, so with 1000 classes; with
  \<open>pretrained\<close> its parameters are those installed from the downloaded state dictionary,
  without it the ones the constructors initialised, and the call cannot fail.
\<close>

theorem densenet121_ignores_kwargs:
  "densenet121 load_url load_state_dict pretrained kwargs
     = densenet121 load_url load_state_dict pretrained (Map.empty :: string \<rightharpoonup> 'v)
   \<and> (\<forall>model p. densenet121 load_url load_state_dict pretrained kwargs = Inr (model, p) \<longrightarrow>
         model = DenseNet_init 32 [6, 12, 24, 16] 64 4 0 1000
         \<and> out_features (classifier model) = 1000
         \<and> (pretrained \<longrightarrow>
              (\<exists>state_dict w.
                 load_url ''https://download.pytorch.org/models/densenet121-241335ed.pth''
                   = Inr state_dict
                 \<and> load_state_dict model state_dict = Inr w \<and> p = Some w))
         \<and> (\<not> pretrained \<longrightarrow> p = None))
   \<and> (\<not> pretrained \<longrightarrow>
         densenet121 load_url load_state_dict pretrained kwargs
           = Inr (DenseNet_init 32 [6, 12, 24, 16] 64 4 0 1000, None))"
  by (auto simp: densenet121_def model_urls_def classifier_out_features Let_def
           split: sum.splits)

theorem densenet121_ignores_kwargs_witness:
  "densenet121 (\<lambda>url. Inr url) (\<lambda>model state_dict. Inr state_dict) True
       [''num_classes'' \<mapsto> (2 :: int)]
     = Inr (DenseNet_init 32 [6, 12, 24, 16] 64 4 0 1000,
            Some ''https://download.pytorch.org/models/densenet121-241335ed.pth'')
   \<and> out_features (classifier (DenseNet_init 32 [6, 12, 24, 16] 64 4 0 1000)) = 1000"
proof -
  have r: "densenet121 (\<lambda>url. Inr url) (\<lambda>model state_dict. Inr state_dict) True
       [''num_classes'' \<mapsto> (2 :: int)]
     = Inr (DenseNet_init 32 [6, 12, 24, 16] 64 4 0 1000,
            Some ''https://download.pytorch.org/models/densenet121-241335ed.pth'')"
    by (simp add: densenet121_def model_urls_def)
  from densenet121_ignores_kwargs[of "\<lambda>url. Inr url" "\<lambda>model state_dict. Inr state_dict" True
         "[''num_classes'' \<mapsto> (2 :: int)]", THEN conjunct2, THEN conjunct1, rule_format, OF r]
  show ?thesis using r by simp
qed

text \<open>
  Claim C8 does not hold of the code. For a batch whose first image has label 0 and for
  which the model's largest logit is at position 1, the title shown is the name of class
  0, the label, and not the name of class 1, the prediction.
\<close>

theorem visualize_model_title_is_label:
  "visualize_model (\<lambda>inputs. Inr [[0, 1]]) 5 [''ants'', ''bees''] [([7 :: nat], [0])]
     = ([(7, ''pred: ants'')], None)
   \<and> torch_max1 [[0, 1]] = Inr [1]
   \<and> getitem [''ants'', ''bees''] 1 = Inr ''bees''"
  by (simp add: visualize_model_def torch_max1_def getitem_def)

subsection \<open>The training loop\<close>

lemma run_phase_effect:
  assumes "run_phase ops ld sz model epoch ph opt st = Inr (opt', st')"
    and "model < length (store st)"
  shows "\<exists>m l a. console st' = console st @ [(ph, l, a)] \<and>
           (if ph = Val \<and> a > best_acc st
            then best_acc st' = a \<and> best_model st' = length (store st) \<and>
                 store st' = (store st)[model := m] @ [m]
            else best_acc st' = best_acc st \<and> best_model st' = best_model st \<and>
                 store st' = (store st)[model := m])"
proof -
  obtain o1 m l c where rb:
    "run_batches ops ph (ld ph epoch) (opt, store st ! model, 0, 0) = (o1, m, l, c)"
    by (metis prod_cases4)
  from assms(1) have nz: "sz ph \<noteq> 0"
    by (auto simp: run_phase_def rb Let_def split: if_splits)
  let ?a = "real_of_int c / real (sz ph)"
  let ?l = "l / real (sz ph)"
  show ?thesis
  proof (cases "ph = Val \<and> ?a > best_acc st")
    case True
    with assms nz rb have
      "st' = st\<lparr>store := (store st)[model := m] @ [m],
              console := console st @ [(ph, ?l, ?a)], best_acc := ?a,
              best_model := length (store st)\<rparr>"
      by (auto simp: run_phase_def Let_def)
    with True show ?thesis by - (rule exI[where x = m], rule exI[where x = "?l"], rule exI[where x = "?a"], auto)
  next
    case False
    with assms nz rb have
      "st' = st\<lparr>store := (store st)[model := m], console := console st @ [(ph, ?l, ?a)]\<rparr>"
      by (auto simp: run_phase_def Let_def)
    with False show ?thesis by - (rule exI[where x = m], rule exI[where x = "?l"], rule exI[where x = "?a"], auto)
  qed
qed

lemma run_epoch_effect:
  assumes "run_epoch ops ld sz model epoch st = Inr st'"
    and "model < length (store st)"
  shows "\<exists>m tl ta vl va. console st' = console st @ [(Train, tl, ta), (Val, vl, va)] \<and>
           (if va > best_acc st
            then best_acc st' = va \<and> best_model st' = length (store st) \<and>
                 store st' = (store st)[model := m] @ [m]
            else best_acc st' = best_acc st \<and> best_model st' = best_model st \<and>
                 store st' = (store st)[model := m])"
proof -
  from assms(1) obtain o1 s1 o2 where
    p1: "run_phase ops ld sz model epoch Train (optim_scheduler ops (store st ! model) epoch) st
           = Inr (o1, s1)"
    and p2: "run_phase ops ld sz model epoch Val o1 s1 = Inr (o2, st')"
    by (auto simp: run_epoch_def Let_def split: sum.splits prod.splits)
  from run_phase_effect[OF p1 assms(2)] obtain m1 tl ta where
    c1: "console s1 = console st @ [(Train, tl, ta)]"
    and b1: "best_acc s1 = best_acc st" "best_model s1 = best_model st"
    and s1: "store s1 = (store st)[model := m1]"
    by auto
  have l1: "model < length (store s1)" using assms(2) s1 by simp
  from run_phase_effect[OF p2 l1] obtain m vl va where
    c2: "console st' = console s1 @ [(Val, vl, va)]"
    and e2: "if va > best_acc s1
            then best_acc st' = va \<and> best_model st' = length (store s1) \<and>
                 store st' = (store s1)[model := m] @ [m]
            else best_acc st' = best_acc s1 \<and> best_model st' = best_model s1 \<and>
                 store st' = (store s1)[model := m]"
    by auto
  have "console st' = console st @ [(Train, tl, ta), (Val, vl, va)] \<and>
           (if va > best_acc st
            then best_acc st' = va \<and> best_model st' = length (store st) \<and>
                 store st' = (store st)[model := m] @ [m]
            else best_acc st' = best_acc st \<and> best_model st' = best_model st \<and>
                 store st' = (store st)[model := m])"
    using c1 c2 e2 b1 s1 by (auto split: if_splits)
  then show ?thesis by blast
qed

lemma run_epochs_Suc:
  "run_epochs ops ld sz h model (Suc k) = Inr st' \<Longrightarrow>
     \<exists>st. run_epochs ops ld sz h model k = Inr st \<and> run_epoch ops ld sz model k st = Inr st'"
  by (auto split: sum.splits)

lemma val_acc_append:
  "length (console st) = 2 * k \<Longrightarrow> console st' = console st @ [a, (ph, l, v)] \<Longrightarrow>
     val_acc st' k = v \<and> (\<forall>e<k. val_acc st' e = val_acc st e)"
  by (auto simp: val_acc_def nth_append)

lemma run_epochs_inv:
  assumes h: "model < length h"
  shows "run_epochs ops ld sz h model k = Inr st \<Longrightarrow>
     length (console st) = 2 * k \<and>
     map fst (console st) = concat (replicate k [Train, Val]) \<and>
     model < length (store st) \<and>
     0 \<le> best_acc st \<and>
     (\<forall>e<k. val_acc st e \<le> best_acc st) \<and>
     (best_acc st = 0 \<longrightarrow> best_model st = model) \<and>
     (0 < best_acc st \<longrightarrow>
        best_model st \<noteq> model \<and> best_model st < length (store st) \<and>
        (\<exists>e<k. val_acc st e = best_acc st \<and> (\<forall>e'<e. val_acc st e' < best_acc st) \<and>
           (\<exists>se. run_epochs ops ld sz h model (Suc e) = Inr se \<and>
                 store st ! best_model st = store se ! model)))"
proof (induction k arbitrary: st)
  case 0
  then show ?case using h by auto
next
  case (Suc k)
  from run_epochs_Suc[OF Suc.prems] obtain s where
    s: "run_epochs ops ld sz h model k = Inr s" and ep: "run_epoch ops ld sz model k s = Inr st"
    by blast
  note IH = Suc.IH[OF s]
  from IH have len: "length (console s) = 2 * k"
    and ph: "map fst (console s) = concat (replicate k [Train, Val])"
    and ml: "model < length (store s)"
    and nn: "0 \<le> best_acc s"
    and le: "\<forall>e<k. val_acc s e \<le> best_acc s"
    and z: "best_acc s = 0 \<longrightarrow> best_model s = model"
    and p: "0 < best_acc s \<longrightarrow>
        best_model s \<noteq> model \<and> best_model s < length (store s) \<and>
        (\<exists>e<k. val_acc s e = best_acc s \<and> (\<forall>e'<e. val_acc s e' < best_acc s) \<and>
           (\<exists>se. run_epochs ops ld sz h model (Suc e) = Inr se \<and>
                 store s ! best_model s = store se ! model))"
    by blast+
  from run_epoch_effect[OF ep ml] obtain m tl ta vl va where
    c: "console st = console s @ [(Train, tl, ta), (Val, vl, va)]"
    and e: "if va > best_acc s
            then best_acc st = va \<and> best_model st = length (store s) \<and>
                 store st = (store s)[model := m] @ [m]
            else best_acc st = best_acc s \<and> best_model st = best_model s \<and>
                 store st = (store s)[model := m]"
    by blast
  from val_acc_append[OF len c] have vk: "val_acc st k = va"
    and vo: "\<forall>e<k. val_acc st e = val_acc s e" by blast+
  have len': "length (console st) = 2 * Suc k" using c len by simp
  have rp: "replicate (Suc k) [Train, Val] = replicate k [Train, Val] @ [[Train, Val]]"
    by (simp add: replicate_append_same)
  have ph': "map fst (console st) = concat (replicate (Suc k) [Train, Val])"
    unfolding rp using c ph by simp
  show ?case
  proof (cases "va > best_acc s")
    case True
    with e have b: "best_acc st = va" and bm: "best_model st = length (store s)"
      and st: "store st = (store s)[model := m] @ [m]" by simp_all
    have ml': "model < length (store st)" using ml st by simp
    have nn': "0 \<le> best_acc st" using b True nn by simp
    have le': "\<forall>e<Suc k. val_acc st e \<le> best_acc st"
    proof (intro allI impI)
      fix e assume "e < Suc k"
      then show "val_acc st e \<le> best_acc st"
        using vo le vk b True by (cases "e = k") (auto simp: less_Suc_eq)
    qed
    have first: "\<forall>e'<k. val_acc st e' < best_acc st"
      using vo le b True by fastforce
    have cp: "store st ! best_model st = store st ! model"
      using st bm ml by (simp add: nth_append)
    have p': "best_model st \<noteq> model \<and> best_model st < length (store st) \<and>
        (\<exists>e<Suc k. val_acc st e = best_acc st \<and> (\<forall>e'<e. val_acc st e' < best_acc st) \<and>
           (\<exists>se. run_epochs ops ld sz h model (Suc e) = Inr se \<and>
                 store st ! best_model st = store se ! model))"
      using bm ml st vk b first Suc.prems cp
      by (auto intro!: exI[where x = k])
    have z': "best_acc st = 0 \<longrightarrow> best_model st = model" using b True nn by simp
    show ?thesis using len' ph' ml' nn' le' z' p' by blast
  next
    case False
    with e have b: "best_acc st = best_acc s" and bm: "best_model st = best_model s"
      and st: "store st = (store s)[model := m]" by simp_all
    have ml': "model < length (store st)" using ml st by simp
    have nn': "0 \<le> best_acc st" using b nn by simp
    have le': "\<forall>e<Suc k. val_acc st e \<le> best_acc st"
    proof (intro allI impI)
      fix e assume "e < Suc k"
      then show "val_acc st e \<le> best_acc st"
        using vo le vk b False by (cases "e = k") (auto simp: less_Suc_eq)
    qed
    have z': "best_acc st = 0 \<longrightarrow> best_model st = model" using b bm z by simp
    have p': "0 < best_acc st \<longrightarrow>
        best_model st \<noteq> model \<and> best_model st < length (store st) \<and>
        (\<exists>e<Suc k. val_acc st e = best_acc st \<and> (\<forall>e'<e. val_acc st e' < best_acc st) \<and>
           (\<exists>se. run_epochs ops ld sz h model (Suc e) = Inr se \<and>
                 store st ! best_model st = store se ! model))"
    proof
      assume "0 < best_acc st"
      with b p obtain e se where ne: "best_model s \<noteq> model"
        and bl: "best_model s < length (store s)" and ek: "e < k"
        and ve: "val_acc s e = best_acc s" and fe: "\<forall>e'<e. val_acc s e' < best_acc s"
        and se: "run_epochs ops ld sz h model (Suc e) = Inr se"
        and cp: "store s ! best_model s = store se ! model" by auto
      have "store st ! best_model st = store se ! model" using st bm ne cp by simp
      moreover have "val_acc st e = best_acc st" using vo ek ve b by simp
      moreover have "\<forall>e'<e. val_acc st e' < best_acc st" using vo ek fe b by simp
      ultimately show "best_model st \<noteq> model \<and> best_model st < length (store st) \<and>
        (\<exists>e<Suc k. val_acc st e = best_acc st \<and> (\<forall>e'<e. val_acc st e' < best_acc st) \<and>
           (\<exists>se. run_epochs ops ld sz h model (Suc e) = Inr se \<and>
                 store st ! best_model st = store se ! model))"
        using ne bl bm st se ek by (auto intro!: exI[where x = e])
    qed
    show ?thesis using len' ph' ml' nn' le' z' p' by blast
  qed
qed

lemma best_acc_step:
  assumes "model < length h"
    and "run_epochs ops ld sz h model k = Inr st"
    and "run_epochs ops ld sz h model (Suc k) = Inr st'"
  shows "best_acc st \<le> best_acc st'"
proof -
  from assms(2,3) have ep: "run_epoch ops ld sz model k st = Inr st'" by simp
  from run_epochs_inv[OF assms(1) assms(2)] have "model < length (store st)" by blast
  from run_epoch_effect[OF ep this] show ?thesis by (auto split: if_splits)
qed

lemma run_epochs_prefix:
  "run_epochs ops ld sz h model (j + d) = Inr sk \<Longrightarrow> \<exists>sj. run_epochs ops ld sz h model j = Inr sj"
proof (induction d arbitrary: sk)
  case 0
  then show ?case by simp
next
  case (Suc d)
  then show ?case by (auto split: sum.splits)
qed

lemma best_acc_mono_add:
  assumes "model < length h"
  shows "run_epochs ops ld sz h model j = Inr sj \<Longrightarrow>
         run_epochs ops ld sz h model (j + d) = Inr sk \<Longrightarrow> best_acc sj \<le> best_acc sk"
proof (induction d arbitrary: sk)
  case 0
  then show ?case by simp
next
  case (Suc d)
  from Suc.prems(2) obtain s where
    s: "run_epochs ops ld sz h model (j + d) = Inr s" by (auto split: sum.splits)
  from Suc.IH[OF Suc.prems(1) s] have "best_acc sj \<le> best_acc s" .
  moreover have "best_acc s \<le> best_acc sk"
    using best_acc_step[OF assms s] Suc.prems(2) by simp
  ultimately show ?case by simp
qed

lemma best_acc_mono:
  assumes "model < length h" and "j \<le> k"
    and "run_epochs ops ld sz h model j = Inr sj" and "run_epochs ops ld sz h model k = Inr sk"
  shows "best_acc sj \<le> best_acc sk"
proof -
  from assms(2) obtain d where "k = j + d" using le_Suc_ex by blast
  with best_acc_mono_add[OF assms(1) assms(3)] assms(4) show ?thesis by blast
qed

lemma best_acc_Max:
  assumes "model < length h" and "run_epochs ops ld sz h model k = Inr st"
  shows "best_acc st = Max (insert 0 (val_acc st ` {..<k}))"
proof -
  note inv = run_epochs_inv[OF assms]
  have "Max (insert 0 (val_acc st ` {..<k})) = best_acc st"
  proof (rule Max_eqI)
    show "finite (insert 0 (val_acc st ` {..<k}))" by simp
  next
    fix y assume "y \<in> insert 0 (val_acc st ` {..<k})"
    then show "y \<le> best_acc st" using inv by auto
  next
    show "best_acc st \<in> insert 0 (val_acc st ` {..<k})"
    proof (cases "best_acc st = 0")
      case True
      then show ?thesis by simp
    next
      case False
      with inv have "0 < best_acc st" by simp
      with inv obtain e where "e < k" "val_acc st e = best_acc st" by blast
      then show ?thesis by force
    qed
  qed
  then show ?thesis by simp
qed

lemma run_batches_Train:
  "(\<lambda>(optimizer, m, l, c). (optimizer, m)) (run_batches ops Train bs (optimizer, m, l, c))
     = foldl (train_batch ops) (optimizer, m) bs"
  by (induction bs arbitrary: optimizer m l c)
     (simp_all add: train_batch_def Let_def split_beta)

lemma run_batches_Val:
  "(\<lambda>(optimizer', m, l, c). (optimizer', m, c)) (run_batches ops Val bs (optimizer, m, l, c))
     = (optimizer, foldl (val_batch ops optimizer) (m, c) bs)"
  by (induction bs arbitrary: m l c)
     (simp_all add: val_batch_def Let_def split_beta)

lemma run_phase_batches:
  assumes "run_phase ops ld sz model epoch ph opt st = Inr (opt', st')"
    and "model < length (store st)"
  shows "\<exists>l c. run_batches ops ph (ld ph epoch) (opt, store st ! model, 0, 0)
                  = (opt', store st' ! model, l, c) \<and>
               console st' = console st @ [(ph, l / real (sz ph), real_of_int c / real (sz ph))]"
proof -
  obtain o1 m l c where rb:
    "run_batches ops ph (ld ph epoch) (opt, store st ! model, 0, 0) = (o1, m, l, c)"
    by (metis prod_cases4)
  from assms(1) have nz: "sz ph \<noteq> 0"
    by (auto simp: run_phase_def rb Let_def split: if_splits)
  let ?a = "real_of_int c / real (sz ph)"
  let ?l = "l / real (sz ph)"
  show ?thesis
  proof (cases "ph = Val \<and> ?a > best_acc st")
    case True
    with assms nz rb have
      "opt' = o1 \<and> st' = st\<lparr>store := (store st)[model := m] @ [m],
              console := console st @ [(ph, ?l, ?a)], best_acc := ?a,
              best_model := length (store st)\<rparr>"
      by (auto simp: run_phase_def Let_def)
    with assms(2) rb show ?thesis by (simp add: nth_append)
  next
    case False
    with assms nz rb have
      "opt' = o1 \<and> st' = st\<lparr>store := (store st)[model := m], console := console st @ [(ph, ?l, ?a)]\<rparr>"
      by (auto simp: run_phase_def Let_def)
    with assms(2) rb show ?thesis by simp
  qed
qed

lemma run_phase_length:
  assumes "run_phase ops ld sz model epoch ph opt st = Inr (opt', st')"
    and "model < length (store st)"
  shows "model < length (store st')"
  using run_phase_effect[OF assms] assms(2) by (auto split: if_splits)

lemma run_epoch_batches:
  assumes "run_epoch ops ld sz model epoch st = Inr st'"
    and "model < length (store st)"
  shows "case foldl (train_batch ops) (optim_scheduler ops (store st ! model) epoch, store st ! model)
                (ld Train epoch) of
           (optimizer, m) \<Rightarrow>
             (case foldl (val_batch ops optimizer) (m, 0) (ld Val epoch) of
                (m', correct) \<Rightarrow>
                  store st' ! model = m' \<and>
                  (\<exists>a vl. console st' = console st @ [a, (Val, vl, real_of_int correct / real (sz Val))]))"
proof -
  let ?o = "optim_scheduler ops (store st ! model) epoch"
  from assms(1) obtain o1 s1 o2 where
    t: "run_phase ops ld sz model epoch Train ?o st = Inr (o1, s1)"
    and v: "run_phase ops ld sz model epoch Val o1 s1 = Inr (o2, st')"
    by (auto simp: run_epoch_def Let_def split: sum.splits)
  from run_phase_batches[OF t assms(2)] obtain l c where
    rt: "run_batches ops Train (ld Train epoch) (?o, store st ! model, 0, 0)
           = (o1, store s1 ! model, l, c)"
    and ct: "console s1 = console st @ [(Train, l / real (sz Train), real_of_int c / real (sz Train))]"
    by blast
  from run_phase_length[OF t assms(2)] have l1: "model < length (store s1)" .
  from run_phase_batches[OF v l1] obtain l' c' where
    rv: "run_batches ops Val (ld Val epoch) (o1, store s1 ! model, 0, 0)
           = (o2, store st' ! model, l', c')"
    and cv: "console st' = console s1 @ [(Val, l' / real (sz Val), real_of_int c' / real (sz Val))]"
    by blast
  from run_batches_Train[of ops "ld Train epoch" ?o "store st ! model" 0 0] rt
  have ft: "foldl (train_batch ops) (?o, store st ! model) (ld Train epoch) = (o1, store s1 ! model)"
    by simp
  from run_batches_Val[of ops "ld Val epoch" o1 "store s1 ! model" 0 0] rv
  have fv: "foldl (val_batch ops o1) (store s1 ! model, 0) (ld Val epoch) = (store st' ! model, c')"
    by simp
  show ?thesis using ft fv ct cv by simp
qed

lemma console_prefix:
  assumes "model < length h"
  shows "run_epochs ops ld sz h model k = Inr sk \<Longrightarrow>
         run_epochs ops ld sz h model (k + d) = Inr st \<Longrightarrow>
         \<forall>e<k. val_acc st e = val_acc sk e"
proof (induction d arbitrary: st)
  case 0
  then show ?case by simp
next
  case (Suc d)
  from Suc.prems(2) obtain s where
    s: "run_epochs ops ld sz h model (k + d) = Inr s"
    and ep: "run_epoch ops ld sz model (k + d) s = Inr st" by (auto split: sum.splits)
  from run_epochs_inv[OF assms s] have len: "length (console s) = 2 * (k + d)"
    and ml: "model < length (store s)" by blast+
  from run_epoch_effect[OF ep ml] obtain m tl ta vl va where
    c: "console st = console s @ [(Train, tl, ta), (Val, vl, va)]" by blast
  from val_acc_append[OF len c] have "\<forall>e<k + d. val_acc st e = val_acc s e" by blast
  with Suc.IH[OF Suc.prems(1) s] show ?case by simp
qed

lemma epochs_batches:
  assumes h: "model < length h"
    and run: "run_epochs ops ld sz h model n = Inr st"
    and e: "e < n"
  shows "\<exists>se se'. run_epochs ops ld sz h model e = Inr se \<and>
           run_epochs ops ld sz h model (Suc e) = Inr se' \<and>
           (case foldl (train_batch ops) (optim_scheduler ops (store se ! model) e, store se ! model)
                   (ld Train e) of
              (optimizer, m) \<Rightarrow>
                (case foldl (val_batch ops optimizer) (m, 0) (ld Val e) of
                   (m', correct) \<Rightarrow>
                     store se' ! model = m' \<and>
                     val_acc st e = real_of_int correct / real (sz Val)))"
proof -
  from e obtain d where n: "n = Suc e + d" using less_iff_Suc_add by auto
  from run_epochs_prefix[of ops ld sz h model "Suc e" d st] run n obtain se' where
    se': "run_epochs ops ld sz h model (Suc e) = Inr se'" by blast
  from run_epochs_Suc[OF se'] obtain se where
    se: "run_epochs ops ld sz h model e = Inr se"
    and ep: "run_epoch ops ld sz model e se = Inr se'" by blast
  from run_epochs_inv[OF h se] have len: "length (console se) = 2 * e"
    and ml: "model < length (store se)" by blast+
  from console_prefix[OF h se', of d st] run n have ve: "val_acc st e = val_acc se' e" by simp
  obtain optimizer m where ft:
    "foldl (train_batch ops) (optim_scheduler ops (store se ! model) e, store se ! model) (ld Train e)
       = (optimizer, m)" by (cases "foldl (train_batch ops) (optim_scheduler ops (store se ! model) e, store se ! model) (ld Train e)")
  obtain m' correct where fv:
    "foldl (val_batch ops optimizer) (m, 0) (ld Val e) = (m', correct)"
    by (cases "foldl (val_batch ops optimizer) (m, 0) (ld Val e)")
  from run_epoch_batches[OF ep ml] ft fv obtain a vl where
    sm: "store se' ! model = m'"
    and c: "console se' = console se @ [a, (Val, vl, real_of_int correct / real (sz Val))]"
    by auto
  from val_acc_append[OF len c] have "val_acc se' e = real_of_int correct / real (sz Val)" by blast
  with ve sm ft fv se se' show ?thesis by simp
qed

text \<open>
  Claim C7, as amended. Every epoch runs a training phase and then a validation phase.
  In epoch \<open>e\<close> the training phase takes the optimiser that \<^verbatim>\<open>optim_scheduler\<close> makes for the
  model and runs \<open>train_batch\<close>, with its backpropagation and optimiser step, once for
  every batch of the training loader, in order; the validation phase then runs
  \<open>val_batch\<close>, which takes no step, once for every batch of the validation loader. The
  model at the end of the epoch is what these batches leave, and the validation accuracy
  of the epoch is the number of right predictions they count, divided by the size of the
  validation set.
  \<^verbatim>\<open>best_acc\<close> never decreases from one epoch to the next and ends as the largest of
  0 and the validation accuracies of all epochs. If some epoch had a positive validation
  accuracy, the reference returned is to a deep copy, an object other than the model,
  holding the state the model had at the end of the first epoch that reached the largest
  validation accuracy. If none had, the model itself is returned, as the last epoch
  left it.
\<close>

theorem train_model_best:
  assumes "model < length h"
    and "train_model ops dset_loaders dset_sizes h model num_epochs = Inr (returned, st)"
  shows "returned = best_model st
    \<and> map fst (console st) = concat (replicate (nat num_epochs) [Train, Val])
    \<and> (\<forall>e<nat num_epochs. \<exists>se se'.
          run_epochs ops dset_loaders dset_sizes h model e = Inr se \<and>
          run_epochs ops dset_loaders dset_sizes h model (Suc e) = Inr se' \<and>
          (case foldl (train_batch ops)
                  (optim_scheduler ops (store se ! model) e, store se ! model)
                  (dset_loaders Train e) of
             (optimizer, m) \<Rightarrow>
               (case foldl (val_batch ops optimizer) (m, 0) (dset_loaders Val e) of
                  (m', correct) \<Rightarrow>
                    store se' ! model = m' \<and>
                    val_acc st e = real_of_int correct / real (dset_sizes Val))))
    \<and> best_acc st = Max (insert 0 (val_acc st ` {..<nat num_epochs}))
    \<and> (\<forall>j k sj sk. j \<le> k \<longrightarrow>
          run_epochs ops dset_loaders dset_sizes h model j = Inr sj \<longrightarrow>
          run_epochs ops dset_loaders dset_sizes h model k = Inr sk \<longrightarrow>
          best_acc sj \<le> best_acc sk)
    \<and> ((\<exists>e<nat num_epochs. 0 < val_acc st e) \<longrightarrow>
          returned \<noteq> model \<and>
          (\<exists>e<nat num_epochs. val_acc st e = best_acc st \<and> (\<forall>e'<e. val_acc st e' < best_acc st) \<and>
             (\<exists>se. run_epochs ops dset_loaders dset_sizes h model (Suc e) = Inr se \<and>
                   store st ! returned = store se ! model)))
    \<and> ((\<forall>e<nat num_epochs. val_acc st e \<le> 0) \<longrightarrow> returned = model)"
proof -
  from assms(2) have r: "returned = best_model st"
    and run: "run_epochs ops dset_loaders dset_sizes h model (nat num_epochs) = Inr st"
    by (auto simp: train_model_def split: sum.splits)
  note inv = run_epochs_inv[OF assms(1) run]
  have bat: "\<forall>e<nat num_epochs. \<exists>se se'.
          run_epochs ops dset_loaders dset_sizes h model e = Inr se \<and>
          run_epochs ops dset_loaders dset_sizes h model (Suc e) = Inr se' \<and>
          (case foldl (train_batch ops)
                  (optim_scheduler ops (store se ! model) e, store se ! model)
                  (dset_loaders Train e) of
             (optimizer, m) \<Rightarrow>
               (case foldl (val_batch ops optimizer) (m, 0) (dset_loaders Val e) of
                  (m', correct) \<Rightarrow>
                    store se' ! model = m' \<and>
                    val_acc st e = real_of_int correct / real (dset_sizes Val)))"
    using epochs_batches[OF assms(1) run] by blast
  have mono: "\<forall>j k sj sk. j \<le> k \<longrightarrow>
          run_epochs ops dset_loaders dset_sizes h model j = Inr sj \<longrightarrow>
          run_epochs ops dset_loaders dset_sizes h model k = Inr sk \<longrightarrow>
          best_acc sj \<le> best_acc sk"
    using best_acc_mono[OF assms(1)] by blast
  have pos: "(\<exists>e<nat num_epochs. 0 < val_acc st e) \<longrightarrow>
          returned \<noteq> model \<and>
          (\<exists>e<nat num_epochs. val_acc st e = best_acc st \<and> (\<forall>e'<e. val_acc st e' < best_acc st) \<and>
             (\<exists>se. run_epochs ops dset_loaders dset_sizes h model (Suc e) = Inr se \<and>
                   store st ! returned = store se ! model))"
  proof
    assume "\<exists>e<nat num_epochs. 0 < val_acc st e"
    then obtain e where "e < nat num_epochs" "0 < val_acc st e" by blast
    with inv have "0 < best_acc st" by force
    with inv show "returned \<noteq> model \<and>
          (\<exists>e<nat num_epochs. val_acc st e = best_acc st \<and> (\<forall>e'<e. val_acc st e' < best_acc st) \<and>
             (\<exists>se. run_epochs ops dset_loaders dset_sizes h model (Suc e) = Inr se \<and>
                   store st ! returned = store se ! model))"
      unfolding r by blast
  qed
  have none: "(\<forall>e<nat num_epochs. val_acc st e \<le> 0) \<longrightarrow> returned = model"
  proof
    assume a: "\<forall>e<nat num_epochs. val_acc st e \<le> 0"
    have "\<not> 0 < best_acc st"
    proof
      assume "0 < best_acc st"
      with inv obtain e where "e < nat num_epochs" "val_acc st e = best_acc st" by blast
      with a \<open>0 < best_acc st\<close> show False by force
    qed
    with inv have "best_acc st = 0" by force
    with inv show "returned = model" unfolding r by blast
  qed
  have ph: "map fst (console st) = concat (replicate (nat num_epochs) [Train, Val])"
    using inv by blast
  from r ph bat best_acc_Max[OF assms(1) run] mono pos none
  show ?thesis by (intro conjI)
qed

text \<open>
  Three epochs of \<open>learning_ops\<close> with two batches in each phase. Every training phase
  takes two steps and every validation phase none, so the model has taken 2, 4 and 6
  steps at the ends of the epochs. Both validation predictions are right from epoch 1
  on; the copy is taken there and holds the model after 4 steps.
\<close>

lemma learning_run:
  "train_model learning_ops (\<lambda>ph e. [(), ()]) (\<lambda>ph. 2) [0] 0 3
     = Inr (1, \<lparr>store = [6, 4], best_model = 1, best_acc = 1,
                console = [(Train, 1, 0), (Val, 1, 0), (Train, 1, 1 / 2), (Val, 1, 1),
                           (Train, 1, 1), (Val, 1, 1)]\<rparr>)"
  by (simp add: train_model_def run_epoch_def run_phase_def learning_ops_def counting_ops_def
        numeral_3_eq_3 Let_def)

lemma learning_run1:
  "run_epochs learning_ops (\<lambda>ph e. [(), ()]) (\<lambda>ph. 2) [0] 0 1
     = Inr \<lparr>store = [2], best_model = 0, best_acc = 0,
            console = [(Train, 1, 0), (Val, 1, 0)]\<rparr>"
  by (simp add: run_epoch_def run_phase_def learning_ops_def counting_ops_def Let_def)

lemma learning_run2:
  "run_epochs learning_ops (\<lambda>ph e. [(), ()]) (\<lambda>ph. 2) [0] 0 (Suc 1)
     = Inr \<lparr>store = [4, 4], best_model = 1, best_acc = 1,
            console = [(Train, 1, 0), (Val, 1, 0), (Train, 1, 1 / 2), (Val, 1, 1)]\<rparr>"
  by (simp add: run_epoch_def run_phase_def learning_ops_def counting_ops_def Let_def)

lemma learning_batches:
  "foldl (train_batch learning_ops) ((), 2) [(), ()] = ((), 4)"
  "foldl (val_batch learning_ops ()) (4, 0) [(), ()] = (4, 2)"
  by (simp_all add: train_batch_def val_batch_def learning_ops_def counting_ops_def)

theorem train_model_best_witness:
  "train_model learning_ops (\<lambda>ph e. [(), ()]) (\<lambda>ph. 2) [0] 0 3
     = Inr (1, \<lparr>store = [6, 4], best_model = 1, best_acc = 1,
                console = [(Train, 1, 0), (Val, 1, 0), (Train, 1, 1 / 2), (Val, 1, 1),
                           (Train, 1, 1), (Val, 1, 1)]\<rparr>)
   \<and> run_epochs learning_ops (\<lambda>ph e. [(), ()]) (\<lambda>ph. 2) [0] 0 1
     = Inr \<lparr>store = [2], best_model = 0, best_acc = 0,
            console = [(Train, 1, 0), (Val, 1, 0)]\<rparr>
   \<and> run_epochs learning_ops (\<lambda>ph e. [(), ()]) (\<lambda>ph. 2) [0] 0 (Suc 1)
     = Inr \<lparr>store = [4, 4], best_model = 1, best_acc = 1,
            console = [(Train, 1, 0), (Val, 1, 0), (Train, 1, 1 / 2), (Val, 1, 1)]\<rparr>
   \<and> foldl (train_batch learning_ops) (optim_scheduler learning_ops 2 1, 2) [(), ()] = ((), 4)
   \<and> foldl (val_batch learning_ops ()) (4, 0) [(), ()] = (4, 2)
   \<and> val_acc \<lparr>store = [6, 4 :: nat], best_model = 1, best_acc = 1,
                console = [(Train, 1, 0), (Val, 1, 0), (Train, 1, 1 / 2), (Val, 1, 1),
                           (Train, 1, 1), (Val, 1, 1)]\<rparr> 1 = real_of_int 2 / real 2
   \<and> (1 :: real) = Max (insert 0 (val_acc \<lparr>store = [6, 4 :: nat], best_model = 1, best_acc = 1,
                console = [(Train, 1, 0), (Val, 1, 0), (Train, 1, 1 / 2), (Val, 1, 1),
                           (Train, 1, 1), (Val, 1, 1)]\<rparr> ` {..<nat 3}))"
proof -
  have h: "(0 :: nat) < length [0 :: nat]" by simp
  have e: "(1 :: nat) < nat 3" by simp
  note t = train_model_best[OF h learning_run]
  from t have b: "\<forall>e<nat 3. \<exists>se se'.
          run_epochs learning_ops (\<lambda>ph e. [(), ()]) (\<lambda>ph. 2) [0] 0 e = Inr se \<and>
          run_epochs learning_ops (\<lambda>ph e. [(), ()]) (\<lambda>ph. 2) [0] 0 (Suc e) = Inr se' \<and>
          (case foldl (train_batch learning_ops)
                  (optim_scheduler learning_ops (store se ! 0) e, store se ! 0) [(), ()] of
             (optimizer, m) \<Rightarrow>
               (case foldl (val_batch learning_ops optimizer) (m, 0) [(), ()] of
                  (m', correct) \<Rightarrow>
                    store se' ! 0 = m' \<and>
                    val_acc \<lparr>store = [6, 4 :: nat], best_model = 1, best_acc = 1,
                       console = [(Train, 1, 0), (Val, 1, 0), (Train, 1, 1 / 2), (Val, 1, 1),
                                  (Train, 1, 1), (Val, 1, 1)]\<rparr> e = real_of_int correct / real 2))"
    by blast
  from b[rule_format, OF e] learning_run1 learning_run2 learning_batches
  have v: "val_acc \<lparr>store = [6, 4 :: nat], best_model = 1, best_acc = 1,
                console = [(Train, 1, 0), (Val, 1, 0), (Train, 1, 1 / 2), (Val, 1, 1),
                           (Train, 1, 1), (Val, 1, 1)]\<rparr> 1 = real_of_int 2 / real 2"
    by simp
  from t have m: "(1 :: real) = Max (insert 0 (val_acc \<lparr>store = [6, 4 :: nat], best_model = 1, best_acc = 1,
                console = [(Train, 1, 0), (Val, 1, 0), (Train, 1, 1 / 2), (Val, 1, 1),
                           (Train, 1, 1), (Val, 1, 1)]\<rparr> ` {..<nat 3}))"
    by simp
  have o: "optim_scheduler learning_ops 2 1 = ()" by simp
  from learning_run learning_run1 learning_run2 learning_batches v m o
  show ?thesis by (simp only: simp_thms)
qed

text \<open>
  The claim as stated fails when no epoch has a positive validation accuracy. Two epochs
  of \<open>counting_ops\<close>: the largest validation accuracy, 0, is first reached in epoch 0,
  at whose end the model has taken one step; what is returned is the reference to the
  model itself, which has taken two.
\<close>

theorem train_model_best_counterexample:
  "train_model counting_ops (\<lambda>ph e. [()]) (\<lambda>ph. 1) [0] 0 2
     = Inr (0, \<lparr>store = [2], best_model = 0, best_acc = 0,
                console = [(Train, 1, 0), (Val, 1, 0), (Train, 1, 0), (Val, 1, 0)]\<rparr>)
   \<and> run_epochs counting_ops (\<lambda>ph e. [()]) (\<lambda>ph. 1) [0] 0 1
     = Inr \<lparr>store = [1], best_model = 0, best_acc = 0,
            console = [(Train, 1, 0), (Val, 1, 0)]\<rparr>
   \<and> val_acc \<lparr>store = [2 :: nat], best_model = 0, best_acc = 0,
                console = [(Train, 1, 0), (Val, 1, 0), (Train, 1, 0), (Val, 1, 0)]\<rparr> 0 = 0
   \<and> [2 :: nat] ! 0 \<noteq> [1] ! 0"
  by (simp add: train_model_def run_epoch_def run_phase_def counting_ops_def val_acc_def
        numeral_2_eq_2 Let_def)

end
